theory Spec2Isabelle
  imports Main
begin

section \<open>Go values shared by the peer protocol (http.go)\<close>

text \<open>
  The contents of a Go \<^verbatim>\<open>[]byte\<close> are a list of characters (a \<^typ>\<open>char\<close> is one byte). A
  slice that is kept in a struct after the function returns is a \<open>byte_slice\<close>: the
  address of its backing array and its length, so that two slices of one array show the
  same bytes. The nil slice is \<open>None\<close>.
\<close>

type_synonym bytes = string

datatype byte_slice = Slice nat nat

text \<open>
  Arguments handed to a \<^verbatim>\<open>Printf\<close>-style formatter. An \<^verbatim>\<open>error\<close> argument is carried as
  the text of its \<^verbatim>\<open>Error()\<close> method (\<open>None\<close> for a nil error), which is what the
  verbs print.
\<close>

datatype fmt_arg = ArgInt int | ArgStr string | ArgBytes bytes | ArgErr "string option"

text \<open>
  The error values that occur in http.go. \<open>External\<close> is an error made outside this
  package (by the transport, the codec or a cache group), known by its text. The three
  struct types of http.go (lines 36--52) are the last three constructors; the \<^verbatim>\<open>Err\<close>
  field of \<^verbatim>\<open>RemoteLoadError\<close> has interface type \<^verbatim>\<open>error\<close>, so it may be nil (\<open>None\<close>).
\<close>

datatype error =
    External string
  | errors_Errorf string "fmt_arg list"
  | errors_Wrapf error string
  | fmt_Errorf string "fmt_arg list"
  | BadGroupcacheRequestError (message: string)
  | GroupNotFoundError (gnf_group: string)
  | RemoteLoadError (Group: string) (Key: string) (StatusCode: int) (Status: string)
      (Body: "byte_slice option") (Err: "error option")

text \<open>
  A \<^verbatim>\<open>http.Response\<close> as the client code reads it: the status code and text, and the
  body stream, which delivers \<open>resp_Body\<close> and then ends normally or with the read error
  \<open>resp_Body_err\<close>.
\<close>

record Response =
  resp_StatusCode :: int
  resp_Status :: string
  resp_Body :: bytes
  resp_Body_err :: "error option"

text \<open>
  Library functions that http.go calls and that are not part of the repository are
  parameters of the model: \<^verbatim>\<open>fmt.Sprintf\<close>, \<^verbatim>\<open>url.PathEscape\<close>, the protobuf codec,
  \<^verbatim>\<open>Time.UnixNano\<close>, \<^verbatim>\<open>http.NewRequestWithContext\<close> (of which only the error matters; it
  is given the method and the URL) and \<^verbatim>\<open>http.DefaultTransport\<close>.
\<close>

record GetRequest =
  req_group :: string
  req_key :: string

record GetResponse =
  Value :: bytes
  Expire :: "int option"

record lib =
  Sprintf :: "string \<Rightarrow> fmt_arg list \<Rightarrow> string"
  PathEscape :: "string \<Rightarrow> string"
  proto_Marshal :: "GetResponse \<Rightarrow> error + bytes"
  proto_Unmarshal :: "bytes \<Rightarrow> GetResponse \<Rightarrow> error option \<times> GetResponse"
  UnixNano :: "int \<Rightarrow> int"
  http_NewRequest :: "string \<Rightarrow> string \<Rightarrow> error option"
  DefaultTransport :: "string \<Rightarrow> string \<Rightarrow> error + Response"

text \<open>
  The \<^verbatim>\<open>Error()\<close> methods (http.go lines 351--357 and 380--382); for the errors of
  \<^verbatim>\<open>github.com/pkg/errors\<close> and \<^verbatim>\<open>fmt\<close> the text is the formatted message, and a wrapped
  error prints its message, a colon and the text of its cause.
\<close>

fun Error :: "lib \<Rightarrow> error \<Rightarrow> string" where
  "Error l (External s) = s"
| "Error l (errors_Errorf f args) = Sprintf l f args"
| "Error l (errors_Wrapf e msg) = msg @ '': '' @ Error l e"
| "Error l (fmt_Errorf f args) = Sprintf l f args"
| "Error l (BadGroupcacheRequestError m) = m"
| "Error l (GroupNotFoundError g) = Sprintf l ''group not found: %q'' [ArgStr g]"
| "Error l (RemoteLoadError g k sc st b e) =
     Sprintf l ''remote load error: %v''
       [ArgErr (case e of None \<Rightarrow> None | Some c \<Rightarrow> Some (Error l c))]"

text \<open>\<^verbatim>\<open>func (r RemoteLoadError) Unwrap() error\<close> (http.go lines 384--386).\<close>

fun Unwrap :: "error \<Rightarrow> error option" where
  "Unwrap (RemoteLoadError g k sc st b e) = e"
| "Unwrap _ = None"

text \<open>Whether an error value has the dynamic type \<^verbatim>\<open>RemoteLoadError\<close>.\<close>

fun is_RemoteLoadError :: "error \<Rightarrow> bool" where
  "is_RemoteLoadError (RemoteLoadError g k sc st b e) = True"
| "is_RemoteLoadError _ = False"

section \<open>String functions of the Go library used by the handler\<close>

definition strings_HasPrefix :: "string \<Rightarrow> string \<Rightarrow> bool" where
  "strings_HasPrefix s p = (length p \<le> length s \<and> take (length p) s = p)"

fun strings_IndexByte :: "string \<Rightarrow> char \<Rightarrow> nat option" where
  "strings_IndexByte [] c = None"
| "strings_IndexByte (x # xs) c =
     (if x = c then Some 0
      else (case strings_IndexByte xs c of None \<Rightarrow> None | Some i \<Rightarrow> Some (Suc i)))"

text \<open>
  \<^verbatim>\<open>strings.SplitN(s, sep, n)\<close> for a one-byte separator and \<open>n \<ge> 0\<close>: at most \<open>n\<close>
  pieces, the last one being the unsplit rest; \<open>n = 0\<close> gives no piece at all.
\<close>

fun strings_SplitN :: "string \<Rightarrow> char \<Rightarrow> nat \<Rightarrow> string list" where
  "strings_SplitN s sep 0 = []"
| "strings_SplitN s sep (Suc 0) = [s]"
| "strings_SplitN s sep (Suc (Suc n)) =
     (case strings_IndexByte s sep of
        None \<Rightarrow> [s]
      | Some m \<Rightarrow> take m s # strings_SplitN (drop (Suc m) s) sep (Suc n))"

section \<open>The inbound handler (HTTPPool.ServeHTTP)\<close>

text \<open>
  What a handler has written to its \<^verbatim>\<open>http.ResponseWriter\<close>: the header map, the status
  code passed to \<^verbatim>\<open>WriteHeader\<close> (\<open>None\<close> while none was written; the server then sends
  200) and the body bytes.
\<close>

record ResponseWriter =
  header :: "string \<rightharpoonup> string"
  status :: "int option"
  body :: bytes

definition new_ResponseWriter :: ResponseWriter where
  "new_ResponseWriter = \<lparr>header = Map.empty, status = None, body = []\<rparr>"

definition WriteHeader :: "ResponseWriter \<Rightarrow> int \<Rightarrow> ResponseWriter" where
  "WriteHeader w code = (case status w of None \<Rightarrow> w\<lparr>status := Some code\<rparr> | Some _ \<Rightarrow> w)"

definition Write :: "ResponseWriter \<Rightarrow> bytes \<Rightarrow> ResponseWriter" where
  "Write w b = (WriteHeader w 200)\<lparr>body := body w @ b\<rparr>"

text \<open>
  \<^verbatim>\<open>http.Error(w, msg, code)\<close> of net/http: it drops \<^verbatim>\<open>Content-Length\<close>, sets a plain-text
  content type, writes the status code and prints the message followed by a newline.
\<close>

definition http_Error :: "ResponseWriter \<Rightarrow> string \<Rightarrow> int \<Rightarrow> ResponseWriter" where
  "http_Error w msg code =
     Write
       (WriteHeader
          (w\<lparr>header := ((header w)(''Content-Length'' := None))
                (''Content-Type'' \<mapsto> ''text/plain; charset=utf-8'',
                 ''X-Content-Type-Options'' \<mapsto> ''nosniff'')\<rparr>)
          code)
       (msg @ [CHR 0x0A])"

record 'ctx Request =
  Method :: string
  URL_Path :: string
  Ctx :: 'ctx

text \<open>
  A cache group is an external collaborator. \<open>group_Get ctx key\<close> stands for
  \<^verbatim>\<open>group.Get(ctx, key, value)\<close> followed by \<^verbatim>\<open>value.view()\<close>: \<open>Inl err\<close> when \<^verbatim>\<open>Get\<close>
  fails, otherwise the bytes \<^verbatim>\<open>b\<close> left in the sink together with the outcome of
  \<^verbatim>\<open>view()\<close>, which is an error or the expiry instant \<^verbatim>\<open>view.e\<close> (0 is the zero instant).
  The handler's writes to the group are returned as a list of effects.
\<close>

record 'ctx Group_ops =
  group_Get :: "'ctx \<Rightarrow> string \<Rightarrow> error + (bytes \<times> (error + int))"

datatype effect = Stats_ServerRequests_Add string int | localRemove string string

type_synonym 'ctx error_handler =
  "'ctx \<Rightarrow> ResponseWriter \<Rightarrow> 'ctx Request \<Rightarrow> error \<Rightarrow> ResponseWriter"

text \<open>
  \<^verbatim>\<open>HTTPPoolOptions\<close> (http.go lines 72--98). A blank string, a zero \<^verbatim>\<open>Replicas\<close> and a nil
  function are the "not set" values; a nil function is \<open>None\<close>. A \<^verbatim>\<open>http.RoundTripper\<close> is
  the function from the request (method and URL) to its outcome.
\<close>

type_synonym RoundTripper = "string \<Rightarrow> string \<Rightarrow> error + Response"

record ('ctx, 'h) HTTPPoolOptions =
  BasePath :: string
  Replicas :: int
  HashFn :: "'h option"
  Transport :: "('ctx \<Rightarrow> RoundTripper) option"
  Context :: "('ctx Request \<Rightarrow> 'ctx) option"
  ServerErrorHandler :: "'ctx error_handler option"

definition defaultBasePath :: string where
  "defaultBasePath = ''/_groupcache/''"

definition defaultReplicas :: int where
  "defaultReplicas = 50"

text \<open>
  The consistent-hash ring is an external collaborator, used through four operations.
\<close>

record ('ring, 'h) ring_ops =
  consistenthash_New :: "int \<Rightarrow> 'h option \<Rightarrow> 'ring"
  ring_Add :: "'ring \<Rightarrow> string list \<Rightarrow> 'ring"
  ring_IsEmpty :: "'ring \<Rightarrow> bool"
  ring_Get :: "'ring \<Rightarrow> string \<Rightarrow> string"

record 'ctx httpGetter =
  getTransport :: "('ctx \<Rightarrow> RoundTripper) option"
  baseURL :: string

record ('ctx, 'h, 'ring) HTTPPool =
  self :: string
  opts :: "('ctx, 'h) HTTPPoolOptions"
  peers :: 'ring
  httpGetters :: "string \<rightharpoonup> 'ctx httpGetter"

text \<open>
  \<^verbatim>\<open>DefaultServerErrorHandler\<close> (http.go lines 334--349). The debug log line is not part
  of the response and is left out.
\<close>

definition DefaultServerErrorHandler :: "lib \<Rightarrow> 'ctx error_handler" where
  "DefaultServerErrorHandler l ctx w r err =
     (case err of
        BadGroupcacheRequestError _ \<Rightarrow> http_Error w (Error l err) 400
      | GroupNotFoundError _ \<Rightarrow> http_Error w (Error l err) 404
      | _ \<Rightarrow> http_Error w (Error l err) 500)"

text \<open>
  A run of the handler ends in a panic (\<open>Inl\<close>, with the panic value) or returns, leaving
  the response written so far and the effects on the group. Calling the error hook
  \<^verbatim>\<open>p.opts.ServerErrorHandler(ctx, w, r, err)\<close> panics when the field is nil.
\<close>

type_synonym handler_result = "string + ResponseWriter \<times> effect list"

definition call_ServerErrorHandler ::
  "('ctx, 'h, 'ring) HTTPPool \<Rightarrow> 'ctx \<Rightarrow> ResponseWriter \<Rightarrow> 'ctx Request \<Rightarrow> error \<Rightarrow>
   effect list \<Rightarrow> handler_result" where
  "call_ServerErrorHandler p ctx w r err effs =
     (case ServerErrorHandler (opts p) of
        None \<Rightarrow> Inl ''invalid memory address or nil pointer dereference''
      | Some h \<Rightarrow> Inr (h ctx w r err, effs))"

text \<open>
  http.go lines 208--249: what the handler does once the request is parsed into
  \<open>groupName\<close> and \<open>key\<close>. \<open>reg\<close> is the registry behind \<^verbatim>\<open>GetGroup\<close>.
\<close>

definition serve_group_key ::
  "lib \<Rightarrow> (string \<rightharpoonup> 'ctx Group_ops) \<Rightarrow> ('ctx, 'h, 'ring) HTTPPool \<Rightarrow> 'ctx \<Rightarrow>
   ResponseWriter \<Rightarrow> 'ctx Request \<Rightarrow> string \<Rightarrow> string \<Rightarrow> handler_result" where
  "serve_group_key l reg p ctx w r groupName key =
     (case reg groupName of
        None \<Rightarrow> call_ServerErrorHandler p ctx w r (GroupNotFoundError groupName) []
      | Some grp \<Rightarrow>
          (let effs = [Stats_ServerRequests_Add groupName 1] in
           if Method r = ''DELETE'' then Inr (w, effs @ [localRemove groupName key])
           else
             (case group_Get grp ctx key of
                Inl err \<Rightarrow> call_ServerErrorHandler p ctx w r err effs
              | Inr (b, Inl err) \<Rightarrow> call_ServerErrorHandler p ctx w r err effs
              | Inr (b, Inr e) \<Rightarrow>
                  (let expireNano = (if e \<noteq> 0 then UnixNano l e else 0) in
                   case proto_Marshal l \<lparr>Value = b, Expire = Some expireNano\<rparr> of
                     Inl err \<Rightarrow> call_ServerErrorHandler p ctx w r err effs
                   | Inr bdy \<Rightarrow>
                       Inr (Write (w\<lparr>header := (header w)
                                      (''Content-Type'' \<mapsto> ''application/x-protobuf'')\<rparr>) bdy,
                            effs)))))"

text \<open>http.go lines 189--194: the context the handler works with.\<close>

definition request_context :: "('ctx, 'h, 'ring) HTTPPool \<Rightarrow> 'ctx Request \<Rightarrow> 'ctx" where
  "request_context p r = (case Context (opts p) of Some f \<Rightarrow> f r | None \<Rightarrow> Ctx r)"

text \<open>\<^verbatim>\<open>func (p *HTTPPool) ServeHTTP\<close> (http.go lines 187--250).\<close>

definition ServeHTTP ::
  "lib \<Rightarrow> (string \<rightharpoonup> 'ctx Group_ops) \<Rightarrow> ('ctx, 'h, 'ring) HTTPPool \<Rightarrow>
   ResponseWriter \<Rightarrow> 'ctx Request \<Rightarrow> handler_result" where
  "ServeHTTP l reg p w r =
     (let ctx = request_context p r in
      if \<not> strings_HasPrefix (URL_Path r) (BasePath (opts p))
      then Inl (''HTTPPool serving unexpected path: '' @ URL_Path r)
      else
        (let parts = strings_SplitN (drop (length (BasePath (opts p))) (URL_Path r)) (CHR ''/'') 2 in
         if length parts \<noteq> 2
         then call_ServerErrorHandler p ctx w r
                (BadGroupcacheRequestError ''invalid request URL (missing path parts)'') []
         else serve_group_key l reg p ctx w r (parts ! 0) (parts ! 1)))"

text \<open>
  The spec speaks of the path segments of the remainder: the pieces between separators,
  an empty piece included (so \<^verbatim>\<open>g/\<close> has two segments, \<^verbatim>\<open>g\<close> and the empty one).
\<close>

fun path_segments :: "string \<Rightarrow> string list" where
  "path_segments [] = [[]]"
| "path_segments (c # cs) =
     (if c = CHR ''/'' then [] # path_segments cs
      else (case path_segments cs of [] \<Rightarrow> [[c]] | x # xs \<Rightarrow> (c # x) # xs))"

section \<open>The peer pool\<close>

text \<open>
  The process-wide variables: \<^verbatim>\<open>httpPoolMade\<close> (http.go line 110) and the registered
  peer-picker factory.
\<close>

record ('ctx, 'h, 'ring) globals =
  httpPoolMade :: bool
  portPicker :: "(unit \<Rightarrow> ('ctx, 'h, 'ring) HTTPPool) option"

text \<open>The state of a process at its start: the Go zero values.\<close>

definition initial_globals :: "('ctx, 'h, 'ring) globals" where
  "initial_globals = \<lparr>httpPoolMade = False, portPicker = None\<rparr>"

text \<open>
  Modelled from the spec: \<^verbatim>\<open>RegisterPeerPicker\<close> is defined in a file of the package that
  is not among the sources. The spec calls it "a process-wide peer-picking registration
  hook (register a peer-picker factory)": it stores the factory in the process state.
\<close>

definition RegisterPeerPicker ::
  "(unit \<Rightarrow> ('ctx, 'h, 'ring) HTTPPool) \<Rightarrow> ('ctx, 'h, 'ring) globals \<Rightarrow>
   ('ctx, 'h, 'ring) globals" where
  "RegisterPeerPicker fn g = g\<lparr>portPicker := Some fn\<rparr>"

text \<open>The zero value of \<^verbatim>\<open>HTTPPoolOptions\<close>, which \<^verbatim>\<open>p.opts\<close> holds when the argument \<^verbatim>\<open>o\<close> is nil.\<close>

definition zero_HTTPPoolOptions :: "('ctx, 'h) HTTPPoolOptions" where
  "zero_HTTPPoolOptions =
     \<lparr>BasePath = [], Replicas = 0, HashFn = None, Transport = None, Context = None,
      ServerErrorHandler = None\<rparr>"

text \<open>
  \<^verbatim>\<open>NewHTTPPoolOpts\<close> (http.go lines 115--142): \<open>Inl\<close> is the panic, \<open>Inr\<close> the new pool
  and the process state after the call.
\<close>

definition NewHTTPPoolOpts ::
  "lib \<Rightarrow> ('ring, 'h) ring_ops \<Rightarrow> string \<Rightarrow> ('ctx, 'h) HTTPPoolOptions option \<Rightarrow>
   ('ctx, 'h, 'ring) globals \<Rightarrow> string + ('ctx, 'h, 'ring) HTTPPool \<times> ('ctx, 'h, 'ring) globals" where
  "NewHTTPPoolOpts l ro slf opt g =
     (if httpPoolMade g then Inl ''groupcache: NewHTTPPool must be called only once''
      else
        (let g1 = g\<lparr>httpPoolMade := True\<rparr>;
             o1 = (case opt of None \<Rightarrow> zero_HTTPPoolOptions | Some x \<Rightarrow> x);
             o2 = (if BasePath o1 = [] then o1\<lparr>BasePath := defaultBasePath\<rparr> else o1);
             o3 = (if Replicas o2 = 0 then o2\<lparr>Replicas := defaultReplicas\<rparr> else o2);
             ring = consistenthash_New ro (Replicas o3) (HashFn o3);
             o4 = (case ServerErrorHandler o3 of
                     None \<Rightarrow> o3\<lparr>ServerErrorHandler := Some (DefaultServerErrorHandler l)\<rparr>
                   | Some _ \<Rightarrow> o3);
             p = \<lparr>self = slf, opts = o4, peers = ring, httpGetters = Map.empty\<rparr>
         in Inr (p, RegisterPeerPicker (\<lambda>_. p) g1)))"

text \<open>
  \<^verbatim>\<open>func (p *HTTPPool) Set(peers ...string)\<close> (http.go lines 147--159), named \<open>Set_peers\<close>
  here.
\<close>

definition Set_peers ::
  "('ring, 'h) ring_ops \<Rightarrow> ('ctx, 'h, 'ring) HTTPPool \<Rightarrow> string list \<Rightarrow> ('ctx, 'h, 'ring) HTTPPool" where
  "Set_peers ro p ps =
     p\<lparr>peers := ring_Add ro (consistenthash_New ro (Replicas (opts p)) (HashFn (opts p))) ps,
       httpGetters :=
         fold (\<lambda>peer m. m(peer \<mapsto>
                 \<lparr>getTransport = Transport (opts p), baseURL = peer @ BasePath (opts p)\<rparr>))
              ps Map.empty\<rparr>"

text \<open>
  \<^verbatim>\<open>func (p *HTTPPool) PickPeer(key string) (ProtoGetter, bool)\<close> (http.go lines 175--185).
  The first component is the transport, \<open>None\<close> for nil; a peer that the ring names but
  that has no entry in \<^verbatim>\<open>httpGetters\<close> gives the nil pointer of the map lookup.
\<close>

definition PickPeer ::
  "('ring, 'h) ring_ops \<Rightarrow> ('ctx, 'h, 'ring) HTTPPool \<Rightarrow> string \<Rightarrow> 'ctx httpGetter option \<times> bool" where
  "PickPeer ro p key =
     (if ring_IsEmpty ro (peers p) then (None, False)
      else
        (let peer = ring_Get ro (peers p) key in
         if peer \<noteq> self p then (httpGetters p peer, True) else (None, False)))"

section \<open>The peer transport (httpGetter)\<close>

text \<open>
  \<^verbatim>\<open>func (h *httpGetter) makeRequest\<close> (http.go lines 266--290). The URL (lines 267--272)
  and the choice of the round tripper (lines 279--282) are named, so that the theorems
  can speak of the round trip.
\<close>

definition request_URL :: "lib \<Rightarrow> 'ctx httpGetter \<Rightarrow> GetRequest \<Rightarrow> string" where
  "request_URL l h req =
     Sprintf l ''%v%v/%v''
       [ArgStr (baseURL h), ArgStr (PathEscape l (req_group req)),
        ArgStr (PathEscape l (req_key req))]"

definition round_tripper :: "lib \<Rightarrow> 'ctx httpGetter \<Rightarrow> 'ctx \<Rightarrow> RoundTripper" where
  "round_tripper l h ctx = (case getTransport h of None \<Rightarrow> DefaultTransport l | Some f \<Rightarrow> f ctx)"

definition makeRequest ::
  "lib \<Rightarrow> 'ctx httpGetter \<Rightarrow> 'ctx \<Rightarrow> string \<Rightarrow> GetRequest \<Rightarrow> error + Response" where
  "makeRequest l h ctx method req =
     (let u = request_URL l h req
      in case http_NewRequest l method u of
           Some err \<Rightarrow> Inl err
         | None \<Rightarrow>
             (let tr = round_tripper l h ctx
              in case tr method u of Inl err \<Rightarrow> Inl err | Inr res \<Rightarrow> Inr res))"

text \<open>http.go lines 359--378.\<close>

definition newRemoteLoadError :: "GetRequest \<Rightarrow> error \<Rightarrow> error" where
  "newRemoteLoadError get err = RemoteLoadError (req_group get) (req_key get) 0 [] None (Some err)"

definition newRemoteLoadErrorWithResp ::
  "GetRequest \<Rightarrow> Response \<Rightarrow> byte_slice option \<Rightarrow> error \<Rightarrow> error" where
  "newRemoteLoadErrorWithResp get resp bdy err =
     RemoteLoadError (req_group get) (req_key get) (resp_StatusCode resp) (resp_Status resp)
       bdy (Some err)"

text \<open>
  The buffers of \<^verbatim>\<open>bufferPool\<close> (http.go lines 262--264) are shared between calls of \<^verbatim>\<open>Get\<close>,
  and a byte slice taken from a buffer shows the buffer's backing array, so the arrays are
  kept in an explicit memory: \<open>arrays\<close> maps the address of a backing array to the bytes
  stored in it, \<open>next_array\<close> is the address the next allocation gets, and \<open>bufferPool\<close>
  holds the buffers that are idle in the pool. A \<^verbatim>\<open>bytes.Buffer\<close> is the address of its
  backing array (\<open>None\<close> while it has none) and the number of bytes it holds; the code never
  reads from a buffer, so its read offset stays 0.
\<close>

record Buffer =
  buf_array :: "nat option"
  buf_len :: nat

record memory =
  arrays :: "nat \<rightharpoonup> bytes"
  next_array :: nat
  bufferPool :: "Buffer list"

definition initial_memory :: memory where
  "initial_memory = \<lparr>arrays = Map.empty, next_array = 0, bufferPool = []\<rparr>"

text \<open>The bytes that a slice shows in a memory; the nil slice shows none.\<close>

definition slice_bytes :: "memory \<Rightarrow> byte_slice option \<Rightarrow> bytes" where
  "slice_bytes mem sl =
     (case sl of
        None \<Rightarrow> []
      | Some (Slice a n) \<Rightarrow> (case arrays mem a of None \<Rightarrow> [] | Some bs \<Rightarrow> take n bs))"

text \<open>
  \<^verbatim>\<open>bufferPool.Get()\<close> hands out one of the idle buffers, of the pool's choosing, or makes a
  new empty buffer when it has none to give: \<open>pick\<close> is the pool's choice, the position of
  the buffer among the idle ones or \<open>None\<close> for a new buffer. \<^verbatim>\<open>bufferPool.Put(b)\<close> makes
  \<open>b\<close> idle again.
\<close>

definition bufferPool_Get :: "memory \<Rightarrow> nat option \<Rightarrow> Buffer \<times> memory" where
  "bufferPool_Get mem pick =
     (case pick of
        None \<Rightarrow> (\<lparr>buf_array = None, buf_len = 0\<rparr>, mem)
      | Some i \<Rightarrow>
          if i < length (bufferPool mem)
          then (bufferPool mem ! i,
                mem\<lparr>bufferPool := take i (bufferPool mem) @ drop (Suc i) (bufferPool mem)\<rparr>)
          else (\<lparr>buf_array = None, buf_len = 0\<rparr>, mem))"

definition bufferPool_Put :: "memory \<Rightarrow> Buffer \<Rightarrow> memory" where
  "bufferPool_Put mem b = mem\<lparr>bufferPool := b # bufferPool mem\<rparr>"

text \<open>\<^verbatim>\<open>b.Reset()\<close> empties the buffer and keeps its backing array; \<^verbatim>\<open>b.Bytes()\<close> is the slice
  of the backing array that holds the buffer's bytes.\<close>

definition Buffer_Reset :: "Buffer \<Rightarrow> Buffer" where
  "Buffer_Reset b = b\<lparr>buf_len := 0\<rparr>"

definition Buffer_Bytes :: "Buffer \<Rightarrow> byte_slice option" where
  "Buffer_Bytes b = (case buf_array b of None \<Rightarrow> None | Some a \<Rightarrow> Some (Slice a (buf_len b)))"

text \<open>
  \<^verbatim>\<open>io.Copy(b, res.Body)\<close> appends the bytes read from the body to the buffer. The buffer
  writes them into its backing array after the bytes it holds, over whatever the array
  held there; when the array is too small, or there is none yet, it first moves to a new
  array. Whether it has to move is decided by the capacity of the array, which the
  library manages: \<open>grows\<close> tells that it moves.
\<close>

definition io_Copy :: "memory \<Rightarrow> Buffer \<Rightarrow> bool \<Rightarrow> bytes \<Rightarrow> Buffer \<times> memory" where
  "io_Copy mem b grows data =
     (let old = (case buf_array b of
                   None \<Rightarrow> []
                 | Some a \<Rightarrow> (case arrays mem a of None \<Rightarrow> [] | Some bs \<Rightarrow> bs));
          kept = take (buf_len b) old;
          n = buf_len b + length data;
          moved = (b\<lparr>buf_array := Some (next_array mem), buf_len := n\<rparr>,
                   mem\<lparr>arrays := (arrays mem)(next_array mem \<mapsto> kept @ data),
                       next_array := Suc (next_array mem)\<rparr>)
      in case buf_array b of
           None \<Rightarrow> moved
         | Some a \<Rightarrow>
             if grows then moved
             else (b\<lparr>buf_len := n\<rparr>,
                   mem\<lparr>arrays := (arrays mem)(a \<mapsto> kept @ data @ drop n old)\<rparr>))"

text \<open>
  http.go lines 299--302: a buffer is taken from the pool, reset and filled with the
  body. The result is the buffer and the memory afterwards.
\<close>

definition fill_buffer :: "memory \<Rightarrow> nat option \<Rightarrow> bool \<Rightarrow> bytes \<Rightarrow> Buffer \<times> memory" where
  "fill_buffer mem pick grows data =
     (case bufferPool_Get mem pick of
        (b, mem1) \<Rightarrow> io_Copy mem1 (Buffer_Reset b) grows data)"

text \<open>
  \<^verbatim>\<open>func (h *httpGetter) Get\<close> (http.go lines 292--315): the returned error (\<open>None\<close> for
  nil), the value of \<^verbatim>\<open>*out\<close> and the memory afterwards. \<^verbatim>\<open>io.Copy\<close> leaves in the buffer the
  bytes read before the body ended or failed. The deferred \<^verbatim>\<open>bufferPool.Put(b)\<close> runs on
  every return after line 301. The \<^verbatim>\<open>Body\<close> of the returned error is \<^verbatim>\<open>b.Bytes()\<close>, a slice
  of the buffer's array, not a copy; the codec copies the bytes it keeps.
\<close>

record Get_result =
  get_err :: "error option"
  get_out :: GetResponse
  get_mem :: memory

definition Get ::
  "lib \<Rightarrow> 'ctx httpGetter \<Rightarrow> 'ctx \<Rightarrow> GetRequest \<Rightarrow> GetResponse \<Rightarrow> memory \<Rightarrow> nat option \<Rightarrow> bool \<Rightarrow>
   Get_result" where
  "Get l h ctx req out mem pick grows =
     (case makeRequest l h ctx ''GET'' req of
        Inl terr \<Rightarrow> \<lparr>get_err = Some (newRemoteLoadError req terr), get_out = out, get_mem = mem\<rparr>
      | Inr res \<Rightarrow>
          (case fill_buffer mem pick grows (resp_Body res) of
             (b, mem2) \<Rightarrow>
               (let mem3 = bufferPool_Put mem2 b in
                if resp_StatusCode res \<noteq> 200
                then \<lparr>get_err = Some (newRemoteLoadErrorWithResp req res (Buffer_Bytes b)
                         (errors_Errorf ''non-OK response code: %d %s''
                            [ArgInt (resp_StatusCode res), ArgStr (resp_Status res)])),
                      get_out = out, get_mem = mem3\<rparr>
                else
                  (case resp_Body_err res of
                     Some rerr \<Rightarrow>
                       \<lparr>get_err = Some (newRemoteLoadErrorWithResp req res None
                                  (errors_Wrapf rerr ''reading response body'')),
                        get_out = out, get_mem = mem3\<rparr>
                   | None \<Rightarrow>
                       (case proto_Unmarshal l (slice_bytes mem2 (Buffer_Bytes b)) out of
                          (Some derr, out') \<Rightarrow>
                            \<lparr>get_err = Some (newRemoteLoadErrorWithResp req res (Buffer_Bytes b)
                                       (errors_Wrapf derr ''decoding response body'')),
                             get_out = out', get_mem = mem3\<rparr>
                        | (None, out') \<Rightarrow>
                            \<lparr>get_err = None, get_out = out', get_mem = mem3\<rparr>)))))"

text \<open>\<^verbatim>\<open>func (h *httpGetter) Remove\<close> (http.go lines 317--332).\<close>

definition Remove :: "lib \<Rightarrow> 'ctx httpGetter \<Rightarrow> 'ctx \<Rightarrow> GetRequest \<Rightarrow> error option" where
  "Remove l h ctx req =
     (case makeRequest l h ctx ''DELETE'' req of
        Inl err \<Rightarrow> Some err
      | Inr res \<Rightarrow>
          (if resp_StatusCode res \<noteq> 200
           then (case resp_Body_err res of
                   Some _ \<Rightarrow>
                     Some (fmt_Errorf ''while reading body response: %v'' [ArgStr (resp_Status res)])
                 | None \<Rightarrow>
                     Some (fmt_Errorf ''server returned status %d: %s''
                             [ArgInt (resp_StatusCode res), ArgBytes (resp_Body res)]))
           else None))"

section \<open>Duplicate call suppression (singleflight.go)\<close>

text \<open>
  A \<^verbatim>\<open>time.Time\<close> is the number of nanoseconds since the zero instant, so \<^verbatim>\<open>IsZero\<close> is
  equality with 0 and \<^verbatim>\<open>Before\<close> is \<open><\<close>. An \<^verbatim>\<open>interface{}\<close> value is \<open>'v option\<close> and an
  \<^verbatim>\<open>error\<close> is \<open>error option\<close>, with \<open>None\<close> for nil.
\<close>

record 'v call =
  wg :: int
  created :: int
  val :: "'v option"
  err :: "error option"

text \<open>How a call of a function ends: it returns its two results, or it panics.\<close>

datatype 'v outcome = Returned "'v option" "error option" | Panicked string

text \<open>
  \<^verbatim>\<open>Do\<close> is run by many goroutines at once, so it is modelled by the steps of its
  invocations. An invocation is named by a number. Its position in the code of \<^verbatim>\<open>Do\<close>
  (singleflight.go lines 46--73) and its local variables \<^verbatim>\<open>key\<close> and \<^verbatim>\<open>c\<close> are:
  \<^item> \<open>Idle\<close>: \<^verbatim>\<open>Do\<close> has not been called yet;
  \<^item> \<open>Waiting key c\<close>: it found the call \<open>c\<close> in the map, released the lock (line 52) and is
    at \<^verbatim>\<open>c.wg.Wait()\<close> (line 53);
  \<^item> \<open>Woken key c\<close>: \<^verbatim>\<open>Wait\<close> has returned, \<^verbatim>\<open>return c.val, c.err\<close> (line 54) is next;
  \<^item> \<open>Leader key c\<close>: it made the call \<open>c\<close>, put it in the map, released the lock (line 62)
    and registered the deferred function; \<^verbatim>\<open>fn()\<close> (line 71) is next;
  \<^item> \<open>Running key c\<close>: \<^verbatim>\<open>fn\<close> is executing;
  \<^item> \<open>Deferred_Done key c out\<close>: \<^verbatim>\<open>fn\<close> has ended with \<open>out\<close>; the deferred function is
    about to run \<^verbatim>\<open>c.wg.Done()\<close> (line 65);
  \<^item> \<open>Deferred_Delete key c out\<close>: lines 66--68 of the deferred function are next;
  \<^item> \<open>Exited_leader key c out\<close>, \<open>Exited_follower key c out\<close>: \<^verbatim>\<open>Do\<close> is over and \<open>out\<close> is
    what its caller gets.
\<close>

datatype 'v pc =
    Idle
  | Waiting string nat
  | Woken string nat
  | Leader string nat
  | Running string nat
  | Deferred_Done string nat "'v outcome"
  | Deferred_Delete string nat "'v outcome"
  | Exited_leader string nat "'v outcome"
  | Exited_follower string nat "'v outcome"

text \<open>
  The state: the field \<^verbatim>\<open>g.m\<close> of the group (\<open>None\<close> while the map is nil; its values are
  pointers, that is addresses in \<open>heap\<close>), the \<^verbatim>\<open>call\<close> objects allocated so far, and the
  position of every invocation. The call that invocation \<open>i\<close> allocates gets address \<open>i\<close>;
  an invocation allocates at most one call, so the address is fresh. \<open>fn_calls i\<close> counts
  how often the loader \<^verbatim>\<open>fn\<close> of invocation \<open>i\<close> has been called.
\<close>

record 'v state =
  Group_m :: "(string \<rightharpoonup> nat) option"
  heap :: "nat \<rightharpoonup> 'v call"
  pcs :: "nat \<Rightarrow> 'v pc"
  fn_calls :: "nat \<Rightarrow> nat"

definition initial_state :: "'v state" where
  "initial_state =
     \<lparr>Group_m = None, heap = Map.empty, pcs = (\<lambda>_. Idle), fn_calls = (\<lambda>_. 0)\<rparr>"

text \<open>Reading the map: a nil map has no entries.\<close>

definition the_map :: "'v state \<Rightarrow> string \<rightharpoonup> nat" where
  "the_map s = (case Group_m s of None \<Rightarrow> Map.empty | Some mp \<Rightarrow> mp)"

text \<open>The error a call is given before the loader runs (line 58).\<close>

definition leader_panicked :: error where
  "leader_panicked = errors_Errorf ''singleflight leader panicked'' []"

text \<open>
  One step of one invocation. The mutex makes lines 47--52 and 47--62 one step each, and
  lines 66--68 one step.
  \<^item> \<open>Enter i key now\<close>: invocation \<open>i\<close> calls \<^verbatim>\<open>Do(key, fn)\<close> and runs up to the unlock;
    \<open>now\<close> is what \<^verbatim>\<open>time.Now().UTC()\<close> reads when it is evaluated;
  \<^item> \<open>Call_fn i\<close>: line 71, the call of \<^verbatim>\<open>fn\<close>;
  \<^item> \<open>Fn_returns i v e\<close>: \<^verbatim>\<open>fn\<close> returns \<open>(v, e)\<close>, which line 71 stores in the call and
    line 72 reads back as the results of \<^verbatim>\<open>Do\<close>;
  \<^item> \<open>Fn_panics i x\<close>: \<^verbatim>\<open>fn\<close> panics with value \<open>x\<close>;
  \<^item> \<open>Wg_Done i\<close>: line 65;
  \<^item> \<open>Delete i\<close>: lines 66--68, after which \<^verbatim>\<open>Do\<close> returns or the panic goes on;
  \<^item> \<open>Wait_returns i\<close>: line 53, possible once the counter of the wait group is 0;
  \<^item> \<open>Follower_returns i\<close>: line 54.
  \<^verbatim>\<open>Lock(fn)\<close> (lines 98--102) holds the same mutex while \<^verbatim>\<open>fn\<close> runs and touches nothing
  else: it only delays \<open>Enter\<close> and \<open>Delete\<close> steps, so it adds no state and no step.
\<close>

datatype 'v action =
    Enter nat string int
  | Call_fn nat
  | Fn_returns nat "'v option" "error option"
  | Fn_panics nat string
  | Wg_Done nat
  | Delete nat
  | Wait_returns nat
  | Follower_returns nat

fun actor :: "'v action \<Rightarrow> nat" where
  "actor (Enter i k now) = i"
| "actor (Call_fn i) = i"
| "actor (Fn_returns i v e) = i"
| "actor (Fn_panics i x) = i"
| "actor (Wg_Done i) = i"
| "actor (Delete i) = i"
| "actor (Wait_returns i) = i"
| "actor (Follower_returns i) = i"

text \<open>
  \<open>Do_step a s\<close> is the state after step \<open>a\<close>, or \<open>None\<close> when the invocation is not at the
  place where \<open>a\<close> happens (or, for \<open>Wait_returns\<close>, still has to wait). \<open>Wg_Done\<close> is also
  \<open>None\<close> when the counter is not positive, where Go panics.
\<close>

fun Do_step :: "'v action \<Rightarrow> 'v state \<Rightarrow> 'v state option" where
  "Do_step (Enter i key now) s =
     (case pcs s i of
        Idle \<Rightarrow>
          (let mp = the_map s in
           case mp key of
             Some c \<Rightarrow> Some (s\<lparr>Group_m := Some mp, pcs := (pcs s)(i := Waiting key c)\<rparr>)
           | None \<Rightarrow>
               Some (s\<lparr>Group_m := Some (mp(key \<mapsto> i)),
                       heap := (heap s)(i \<mapsto>
                         \<lparr>wg = 1, created = now, val = None, err = Some leader_panicked\<rparr>),
                       pcs := (pcs s)(i := Leader key i)\<rparr>))
      | _ \<Rightarrow> None)"
| "Do_step (Call_fn i) s =
     (case pcs s i of
        Leader key c \<Rightarrow>
          Some (s\<lparr>pcs := (pcs s)(i := Running key c),
                  fn_calls := (fn_calls s)(i := Suc (fn_calls s i))\<rparr>)
      | _ \<Rightarrow> None)"
| "Do_step (Fn_returns i v e) s =
     (case pcs s i of
        Running key c \<Rightarrow>
          (case heap s c of
             Some cl \<Rightarrow>
               Some (s\<lparr>heap := (heap s)(c \<mapsto> cl\<lparr>val := v, err := e\<rparr>),
                       pcs := (pcs s)(i := Deferred_Done key c (Returned v e))\<rparr>)
           | None \<Rightarrow> None)
      | _ \<Rightarrow> None)"
| "Do_step (Fn_panics i x) s =
     (case pcs s i of
        Running key c \<Rightarrow> Some (s\<lparr>pcs := (pcs s)(i := Deferred_Done key c (Panicked x))\<rparr>)
      | _ \<Rightarrow> None)"
| "Do_step (Wg_Done i) s =
     (case pcs s i of
        Deferred_Done key c out \<Rightarrow>
          (case heap s c of
             Some cl \<Rightarrow>
               if wg cl \<le> 0 then None
               else Some (s\<lparr>heap := (heap s)(c \<mapsto> cl\<lparr>wg := wg cl - 1\<rparr>),
                            pcs := (pcs s)(i := Deferred_Delete key c out)\<rparr>)
           | None \<Rightarrow> None)
      | _ \<Rightarrow> None)"
| "Do_step (Delete i) s =
     (case pcs s i of
        Deferred_Delete key c out \<Rightarrow>
          Some (s\<lparr>Group_m := (case Group_m s of None \<Rightarrow> None
                                | Some mp \<Rightarrow> Some (mp(key := None))),
                  pcs := (pcs s)(i := Exited_leader key c out)\<rparr>)
      | _ \<Rightarrow> None)"
| "Do_step (Wait_returns i) s =
     (case pcs s i of
        Waiting key c \<Rightarrow>
          (case heap s c of
             Some cl \<Rightarrow> if wg cl = 0 then Some (s\<lparr>pcs := (pcs s)(i := Woken key c)\<rparr>) else None
           | None \<Rightarrow> None)
      | _ \<Rightarrow> None)"
| "Do_step (Follower_returns i) s =
     (case pcs s i of
        Woken key c \<Rightarrow>
          (case heap s c of
             Some cl \<Rightarrow>
               Some (s\<lparr>pcs := (pcs s)(i := Exited_follower key c (Returned (val cl) (err cl)))\<rparr>)
           | None \<Rightarrow> None)
      | _ \<Rightarrow> None)"

text \<open>A schedule is a list of steps, run from left to right.\<close>

fun Do_steps :: "'v action list \<Rightarrow> 'v state \<Rightarrow> 'v state option" where
  "Do_steps [] s = Some s"
| "Do_steps (a # as) s = (case Do_step a s of None \<Rightarrow> None | Some s' \<Rightarrow> Do_steps as s')"

text \<open>
  The key and the call of an invocation that is between putting its call in the map and
  taking it out again.
\<close>

fun leading :: "'v pc \<Rightarrow> (string \<times> nat) option" where
  "leading (Leader key c) = Some (key, c)"
| "leading (Running key c) = Some (key, c)"
| "leading (Deferred_Done key c out) = Some (key, c)"
| "leading (Deferred_Delete key c out) = Some (key, c)"
| "leading _ = None"

text \<open>
  What the followers of a call see, given how the leader's \<^verbatim>\<open>Do\<close> ends: the results the
  loader returned, or, when it panicked, the nil value and the error set on line 58.
\<close>

fun follower_view :: "'v outcome \<Rightarrow> 'v outcome" where
  "follower_view (Returned v e) = Returned v e"
| "follower_view (Panicked x) = Returned None (Some leader_panicked)"

text \<open>
  \<^verbatim>\<open>Count\<close> (lines 76--80) and \<^verbatim>\<open>LongestRunningStartTime\<close> (lines 83--93). Go visits the
  entries of a map in an order of its choosing; \<open>order\<close> is the list of keys in the order of
  this visit, and \<open>in_flight s key\<close> is the call object behind the entry of \<open>key\<close>.
\<close>

definition Count :: "'v state \<Rightarrow> int" where
  "Count s = int (card (dom (the_map s)))"

definition in_flight :: "'v state \<Rightarrow> string \<rightharpoonup> 'v call" where
  "in_flight s key = (case the_map s key of None \<Rightarrow> None | Some c \<Rightarrow> heap s c)"

fun oldest_loop :: "int \<Rightarrow> 'v call list \<Rightarrow> int" where
  "oldest_loop oldest [] = oldest"
| "oldest_loop oldest (e # es) =
     oldest_loop (if oldest = 0 \<or> created e < oldest then created e else oldest) es"

definition LongestRunningStartTime :: "'v state \<Rightarrow> string list \<Rightarrow> int" where
  "LongestRunningStartTime s order = oldest_loop 0 (List.map_filter (in_flight s) order)"

text \<open>
  The creation time of a call is what \<^verbatim>\<open>time.Now().UTC()\<close> reads (line 57), and nothing else
  writes the field. \<^verbatim>\<open>time.Now\<close> reads the wall clock, which is never at the zero instant
  (1 January of year 1): \<open>real_clock as\<close> says that every clock reading in the schedule \<open>as\<close>
  is of this kind.
\<close>

fun clock_reading_ok :: "'v action \<Rightarrow> bool" where
  "clock_reading_ok (Enter i key now) = (now \<noteq> 0)"
| "clock_reading_ok _ = True"

definition real_clock :: "'v action list \<Rightarrow> bool" where
  "real_clock as = list_all clock_reading_ok as"

text \<open>
  The invariant of the steps. \<open>call_of\<close> is the key and the call of an invocation that
  has made a call, whether the call is still in the map or not.
\<close>

fun call_of :: "'v pc \<Rightarrow> (string \<times> nat) option" where
  "call_of (Leader key c) = Some (key, c)"
| "call_of (Running key c) = Some (key, c)"
| "call_of (Deferred_Done key c out) = Some (key, c)"
| "call_of (Deferred_Delete key c out) = Some (key, c)"
| "call_of (Exited_leader key c out) = Some (key, c)"
| "call_of _ = None"

definition no_call :: "'v state \<Rightarrow> nat \<Rightarrow> bool" where
  "no_call s i \<longleftrightarrow> heap s i = None \<and> fn_calls s i = 0 \<and> (\<forall>k. the_map s k \<noteq> Some i)"

definition owns :: "'v state \<Rightarrow> nat \<Rightarrow> string \<Rightarrow> bool" where
  "owns s i key \<longleftrightarrow> the_map s key = Some i \<and> (\<forall>k. the_map s k = Some i \<longrightarrow> k = key)"

definition holds_call :: "'v state \<Rightarrow> nat \<Rightarrow> int \<Rightarrow> 'v outcome \<Rightarrow> bool" where
  "holds_call s i n out \<longleftrightarrow>
     (\<exists>cl. heap s i = Some cl \<and> wg cl = n \<and> Returned (val cl) (err cl) = out)"

definition frame_ok :: "'v state \<Rightarrow> nat \<Rightarrow> bool" where
  "frame_ok s i =
     (case pcs s i of
        Idle \<Rightarrow> no_call s i
      | Waiting key c \<Rightarrow> no_call s i \<and> call_of (pcs s c) = Some (key, c)
      | Woken key c \<Rightarrow>
          no_call s i \<and> call_of (pcs s c) = Some (key, c)
          \<and> (\<exists>cl. heap s c = Some cl \<and> wg cl = 0)
      | Exited_follower key c out \<Rightarrow>
          no_call s i \<and> call_of (pcs s c) = Some (key, c)
          \<and> holds_call s c 0 out
      | Leader key c \<Rightarrow>
          c = i \<and> owns s i key \<and> fn_calls s i = 0
          \<and> holds_call s i 1 (Returned None (Some leader_panicked))
      | Running key c \<Rightarrow>
          c = i \<and> owns s i key \<and> fn_calls s i = 1
          \<and> holds_call s i 1 (Returned None (Some leader_panicked))
      | Deferred_Done key c out \<Rightarrow>
          c = i \<and> owns s i key \<and> fn_calls s i = 1 \<and> holds_call s i 1 (follower_view out)
      | Deferred_Delete key c out \<Rightarrow>
          c = i \<and> owns s i key \<and> fn_calls s i = 1 \<and> holds_call s i 0 (follower_view out)
      | Exited_leader key c out \<Rightarrow>
          c = i \<and> (\<forall>k. the_map s k \<noteq> Some i) \<and> fn_calls s i = 1
          \<and> holds_call s i 0 (follower_view out))"

definition invariant :: "'v state \<Rightarrow> bool" where
  "invariant s \<longleftrightarrow> (\<forall>i. frame_ok s i)"

definition created_nonzero :: "'v state \<Rightarrow> bool" where
  "created_nonzero s \<longleftrightarrow> (\<forall>c cl. heap s c = Some cl \<longrightarrow> created cl \<noteq> 0)"

section \<open>Concrete values for the worked examples\<close>

definition example_lib :: lib where
  "example_lib =
     \<lparr>Sprintf = (\<lambda>f args. f),
      PathEscape = (\<lambda>s. s),
      proto_Marshal = (\<lambda>r. Inr (Value r)),
      proto_Unmarshal = (\<lambda>b out. if b = ''not a message''
                                   then (Some (External ''cannot parse invalid wire-format data''), out)
                                   else (None, out\<lparr>Value := b\<rparr>)),
      UnixNano = (\<lambda>t. t),
      http_NewRequest = (\<lambda>m u. None),
      DefaultTransport = (\<lambda>m u. Inl (External ''connection refused''))\<rparr>"

definition example_ring_ops :: "(string list, unit) ring_ops" where
  "example_ring_ops =
     \<lparr>consistenthash_New = (\<lambda>n h. []),
      ring_Add = (\<lambda>r ps. r @ ps),
      ring_IsEmpty = (\<lambda>r. r = []),
      ring_Get = (\<lambda>r k. if r = [] then [] else r ! (length k mod length r))\<rparr>"

definition example_pool :: "(unit, unit, string list) HTTPPool" where
  "example_pool =
     \<lparr>self = ''http://a:8000'',
      opts = \<lparr>BasePath = ''/_groupcache/'', Replicas = 50, HashFn = None, Transport = None,
              Context = None, ServerErrorHandler = Some (DefaultServerErrorHandler example_lib)\<rparr>,
      peers = [], httpGetters = Map.empty\<rparr>"

definition example_registry :: "string \<rightharpoonup> unit Group_ops" where
  "example_registry = [''g'' \<mapsto> \<lparr>group_Get = (\<lambda>ctx key. Inr (''value of <'' @ key @ ''>'', Inr 0))\<rparr>]"

definition example_request :: "string \<Rightarrow> unit Request" where
  "example_request path = \<lparr>Method = ''GET'', URL_Path = path, Ctx = ()\<rparr>"

definition example_getter :: "unit httpGetter" where
  "example_getter = \<lparr>getTransport = None, baseURL = ''http://b:8000/_groupcache/''\<rparr>"

definition example_GetRequest :: GetRequest where
  "example_GetRequest = \<lparr>req_group = ''g'', req_key = ''k''\<rparr>"

definition zero_GetResponse :: GetResponse where
  "zero_GetResponse = \<lparr>Value = [], Expire = None\<rparr>"

text \<open>A peer that answers every request with the given response.\<close>

definition answering_getter :: "Response \<Rightarrow> unit httpGetter" where
  "answering_getter res =
     \<lparr>getTransport = Some (\<lambda>ctx method u. Inr res), baseURL = ''http://b:8000/_groupcache/''\<rparr>"

text \<open>
  The state after two leaders have entered, for the keys \<^verbatim>\<open>a\<close> and \<^verbatim>\<open>b\<close>, with the clock
  reading 7 and then 5.
\<close>


definition two_leaders_state :: "unit state" where
  "two_leaders_state =
     \<lparr>Group_m = Some [''a'' \<mapsto> 0, ''b'' \<mapsto> 1],
      heap = [0 \<mapsto> \<lparr>wg = 1, created = 7, val = None, err = Some leader_panicked\<rparr>,
              1 \<mapsto> \<lparr>wg = 1, created = 5, val = None, err = Some leader_panicked\<rparr>],
      pcs = (\<lambda>_. Idle)(0 := Leader ''a'' 0, 1 := Leader ''b'' 1),
      fn_calls = (\<lambda>_. 0)\<rparr>"

text \<open>
  States of one flight for the key \<^verbatim>\<open>k\<close>, with invocation 0 as leader and invocation 1 as
  follower: the loader is running; the loader has returned and the signal has fired; both
  invocations have ended after the loader returned; both have ended after it panicked.
\<close>

definition flight_running_state :: "string state" where
  "flight_running_state =
     \<lparr>Group_m = Some [''k'' \<mapsto> 0],
      heap = [0 \<mapsto> \<lparr>wg = 1, created = 100, val = None, err = Some leader_panicked\<rparr>],
      pcs = (\<lambda>_. Idle)(0 := Running ''k'' 0, 1 := Waiting ''k'' 0),
      fn_calls = (\<lambda>_. 0)(0 := 1)\<rparr>"

definition flight_signalled_state :: "string state" where
  "flight_signalled_state =
     \<lparr>Group_m = Some [''k'' \<mapsto> 0],
      heap = [0 \<mapsto> \<lparr>wg = 0, created = 100, val = Some ''payload'', err = None\<rparr>],
      pcs = (\<lambda>_. Idle)(0 := Deferred_Delete ''k'' 0 (Returned (Some ''payload'') None),
                          1 := Waiting ''k'' 0),
      fn_calls = (\<lambda>_. 0)(0 := 1)\<rparr>"

definition flight_over_state :: "string state" where
  "flight_over_state =
     \<lparr>Group_m = Some Map.empty,
      heap = [0 \<mapsto> \<lparr>wg = 0, created = 100, val = Some ''payload'', err = None\<rparr>],
      pcs = (\<lambda>_. Idle)(0 := Exited_leader ''k'' 0 (Returned (Some ''payload'') None),
                          1 := Exited_follower ''k'' 0 (Returned (Some ''payload'') None)),
      fn_calls = (\<lambda>_. 0)(0 := 1)\<rparr>"

definition flight_panicked_state :: "string state" where
  "flight_panicked_state =
     \<lparr>Group_m = Some Map.empty,
      heap = [0 \<mapsto> \<lparr>wg = 0, created = 100, val = None, err = Some leader_panicked\<rparr>],
      pcs = (\<lambda>_. Idle)(0 := Exited_leader ''k'' 0 (Panicked ''boom''),
                          1 := Exited_follower ''k'' 0 (Returned None (Some leader_panicked))),
      fn_calls = (\<lambda>_. 0)(0 := 1)\<rparr>"

text \<open>
  Two calls of \<^verbatim>\<open>Get\<close>, one after the other, against a peer that answers with status 500,
  first with the body \<^verbatim>\<open>first body\<close> and then with the body \<^verbatim>\<open>2nd\<close>. The pool is empty at
  the first call; at the second it hands out the buffer that the first call put back, and
  the array of that buffer is large enough for the second body.
\<close>

definition first_answer :: Response where
  "first_answer =
     \<lparr>resp_StatusCode = 500, resp_Status = ''500 Internal Server Error'',
      resp_Body = ''first body'', resp_Body_err = None\<rparr>"

definition second_answer :: Response where
  "second_answer =
     \<lparr>resp_StatusCode = 500, resp_Status = ''500 Internal Server Error'',
      resp_Body = ''2nd'', resp_Body_err = None\<rparr>"

definition first_Get :: Get_result where
  "first_Get =
     Get example_lib (answering_getter first_answer) () example_GetRequest zero_GetResponse
       initial_memory None False"

definition second_Get :: Get_result where
  "second_Get =
     Get example_lib (answering_getter second_answer) () example_GetRequest zero_GetResponse
       (get_mem first_Get) (Some 0) False"

text \<open>More answers of a peer: a body that breaks off, one that does not decode, a good one.\<close>

definition answer_500_cut :: Response where
  "answer_500_cut =
     \<lparr>resp_StatusCode = 500, resp_Status = ''500 Internal Server Error'',
      resp_Body = ''par'', resp_Body_err = Some (External ''unexpected EOF'')\<rparr>"

definition answer_200_cut :: Response where
  "answer_200_cut =
     \<lparr>resp_StatusCode = 200, resp_Status = ''200 OK'',
      resp_Body = ''par'', resp_Body_err = Some (External ''unexpected EOF'')\<rparr>"

definition answer_200_garbage :: Response where
  "answer_200_garbage =
     \<lparr>resp_StatusCode = 200, resp_Status = ''200 OK'',
      resp_Body = ''not a message'', resp_Body_err = None\<rparr>"

definition answer_200_ok :: Response where
  "answer_200_ok =
     \<lparr>resp_StatusCode = 200, resp_Status = ''200 OK'',
      resp_Body = ''abc'', resp_Body_err = None\<rparr>"

section \<open>Facts about the string functions\<close>

lemma strings_IndexByte_None: "c \<notin> set s \<Longrightarrow> strings_IndexByte s c = None"
  by (induction s) auto

lemma strings_IndexByte_Some:
  "c \<in> set s \<Longrightarrow> strings_IndexByte s c = Some (length (takeWhile (\<lambda>x. x \<noteq> c) s))"
proof (induction s)
  case Nil
  then show ?case by simp
next
  case (Cons a s)
  show ?case
  proof (cases "a = c")
    case True
    then show ?thesis by simp
  next
    case False
    with Cons.prems have "c \<in> set s" by simp
    with Cons.IH False show ?thesis by simp
  qed
qed

lemma strings_SplitN_2_None:
  "c \<notin> set s \<Longrightarrow> strings_SplitN s c 2 = [s]"
  by (simp add: numeral_2_eq_2 strings_IndexByte_None)

lemma strings_SplitN_2_Some:
  assumes "c \<in> set s"
  shows "strings_SplitN s c 2 = [takeWhile (\<lambda>x. x \<noteq> c) s, tl (dropWhile (\<lambda>x. x \<noteq> c) s)]"
proof -
  let ?m = "length (takeWhile (\<lambda>x. x \<noteq> c) s)"
  have idx: "strings_IndexByte s c = Some ?m"
    using assms by (rule strings_IndexByte_Some)
  have "strings_SplitN s c (Suc (Suc 0)) = [take ?m s, drop (Suc ?m) s]"
    by (simp only: strings_SplitN.simps idx option.case)
  moreover have "take ?m s = takeWhile (\<lambda>x. x \<noteq> c) s"
    by (rule takeWhile_eq_take [symmetric])
  moreover have "drop (Suc ?m) s = tl (dropWhile (\<lambda>x. x \<noteq> c) s)"
    by (simp add: dropWhile_eq_drop drop_Suc tl_drop)
  ultimately show ?thesis by (simp only: numeral_2_eq_2)
qed

lemma path_segments_not_Nil: "path_segments s \<noteq> []"
  by (induction s) (auto split: list.splits)

lemma length_path_segments: "length (path_segments s) = Suc (length (filter (\<lambda>x. x = CHR ''/'') s))"
  by (induction s) (auto split: list.splits simp: path_segments_not_Nil)

lemma hd_path_segments: "hd (path_segments s) = takeWhile (\<lambda>x. x \<noteq> CHR ''/'') s"
  by (induction s) (auto split: list.splits simp: path_segments_not_Nil)

lemma few_segments_iff: "length (path_segments s) < 2 \<longleftrightarrow> CHR ''/'' \<notin> set s"
  by (auto simp: length_path_segments filter_empty_conv)

lemma split_first:
  "c \<notin> set g \<Longrightarrow> takeWhile (\<lambda>x. x \<noteq> c) (g @ c # k) = g \<and> tl (dropWhile (\<lambda>x. x \<noteq> c) (g @ c # k)) = k"
  by (simp add: takeWhile_append dropWhile_append)

section \<open>The inbound handler: parsing and error routing\<close>

lemma HasPrefix_append: "strings_HasPrefix (p @ rest) p"
  by (simp add: strings_HasPrefix_def)

lemma ServeHTTP_parsed:
  assumes "URL_Path r = BasePath (opts p) @ rest"
  shows "ServeHTTP l reg p w r =
     (if CHR ''/'' \<in> set rest
      then serve_group_key l reg p (request_context p r) w r
             (takeWhile (\<lambda>x. x \<noteq> CHR ''/'') rest) (tl (dropWhile (\<lambda>x. x \<noteq> CHR ''/'') rest))
      else call_ServerErrorHandler p (request_context p r) w r
             (BadGroupcacheRequestError ''invalid request URL (missing path parts)'') [])"
  using assms
  by (simp add: ServeHTTP_def HasPrefix_append strings_SplitN_2_None strings_SplitN_2_Some Let_def)

lemma http_Error_fresh:
  assumes "status w = None"
  shows "status (http_Error w msg code) = Some code"
    and "body (http_Error w msg code) = body w @ msg @ [CHR 0x0A]"
  using assms by (simp_all add: http_Error_def Write_def WriteHeader_def)

lemma example_pool_handler:
  "ServerErrorHandler (opts example_pool) = Some (DefaultServerErrorHandler example_lib)"
  by (simp add: example_pool_def)

text \<open>
  Claim C9. A request whose URL path does not start with the configured base path makes
  the handler panic: the run ends in \<open>Inl\<close> with the panic value, whatever the error hook
  is, so no error is routed through the hook and no response (hence no HTTP error status)
  is written.
\<close>

theorem ServeHTTP_unexpected_path_panics:
  assumes "\<not> strings_HasPrefix (URL_Path r) (BasePath (opts p))"
  shows "ServeHTTP l reg p w r = Inl (''HTTPPool serving unexpected path: '' @ URL_Path r)"
  using assms by (simp add: ServeHTTP_def)

theorem ServeHTTP_unexpected_path_panics_witness:
  "\<not> strings_HasPrefix (URL_Path (example_request ''/other/g/k'')) (BasePath (opts example_pool))
   \<and> ServeHTTP example_lib example_registry example_pool new_ResponseWriter
        (example_request ''/other/g/k'') = Inl ''HTTPPool serving unexpected path: /other/g/k''"
proof -
  have h: "\<not> strings_HasPrefix (URL_Path (example_request ''/other/g/k'')) (BasePath (opts example_pool))"
    by (simp add: strings_HasPrefix_def example_request_def example_pool_def)
  show ?thesis
    using h ServeHTTP_unexpected_path_panics [OF h, of example_lib example_registry new_ResponseWriter]
    by (simp add: example_request_def)
qed

text \<open>
  Claim C10. The remainder after the base path is split at its first separator only.
  When the remainder is \<open>g\<close>, a separator and \<open>k\<close>, where \<open>g\<close> holds no separator, the two
  parts are \<open>g\<close> and \<open>k\<close> and the handler goes on to serve group \<open>g\<close> and key \<open>k\<close>. Nothing
  is asked of \<open>k\<close>: it may be empty (a group name followed by a trailing separator is
  served with the empty key, it is not a malformed request) and it may contain further
  separators, which stay in the key. The group name is the text before the first
  separator, so it never contains one.
\<close>

theorem ServeHTTP_splits_at_first_separator:
  assumes "CHR ''/'' \<notin> set g"
    and "URL_Path r = BasePath (opts p) @ g @ CHR ''/'' # k"
  shows "strings_SplitN (drop (length (BasePath (opts p))) (URL_Path r)) (CHR ''/'') 2 = [g, k]
       \<and> ServeHTTP l reg p w r = serve_group_key l reg p (request_context p r) w r g k"
proof -
  let ?rest = "g @ CHR ''/'' # k"
  have m: "CHR ''/'' \<in> set ?rest" by simp
  have tk: "takeWhile (\<lambda>x. x \<noteq> CHR ''/'') ?rest = g"
    and dr: "tl (dropWhile (\<lambda>x. x \<noteq> CHR ''/'') ?rest) = k"
    using split_first [OF assms(1), of k] by simp_all
  have "strings_SplitN ?rest (CHR ''/'') 2 = [g, k]"
    using strings_SplitN_2_Some [OF m] tk dr by simp
  moreover have "ServeHTTP l reg p w r = serve_group_key l reg p (request_context p r) w r g k"
    using ServeHTTP_parsed [OF assms(2), of l reg w] m tk dr by simp
  ultimately show ?thesis using assms(2) by simp
qed

theorem ServeHTTP_splits_at_first_separator_witness:
  "CHR ''/'' \<notin> set ''g''
   \<and> URL_Path (example_request ''/_groupcache/g/'') = BasePath (opts example_pool) @ ''g'' @ CHR ''/'' # []
   \<and> ServeHTTP example_lib example_registry example_pool new_ResponseWriter
         (example_request ''/_groupcache/g/'')
       = Inr (\<lparr>header = [''Content-Type'' \<mapsto> ''application/x-protobuf''], status = Some 200,
               body = ''value of <>''\<rparr>, [Stats_ServerRequests_Add ''g'' 1])
   \<and> URL_Path (example_request ''/_groupcache/g/a/b'') = BasePath (opts example_pool) @ ''g'' @ CHR ''/'' # ''a/b''
   \<and> ServeHTTP example_lib example_registry example_pool new_ResponseWriter
         (example_request ''/_groupcache/g/a/b'')
       = Inr (\<lparr>header = [''Content-Type'' \<mapsto> ''application/x-protobuf''], status = Some 200,
               body = ''value of <a/b>''\<rparr>, [Stats_ServerRequests_Add ''g'' 1])"
proof -
  have g: "CHR ''/'' \<notin> set ''g''" by simp
  have h1: "URL_Path (example_request ''/_groupcache/g/'') = BasePath (opts example_pool) @ ''g'' @ CHR ''/'' # []"
    by (simp add: example_request_def example_pool_def)
  have h2: "URL_Path (example_request ''/_groupcache/g/a/b'') = BasePath (opts example_pool) @ ''g'' @ CHR ''/'' # ''a/b''"
    by (simp add: example_request_def example_pool_def)
  have e: "serve_group_key example_lib example_registry example_pool c new_ResponseWriter
             (example_request path) ''g'' key
       = Inr (\<lparr>header = [''Content-Type'' \<mapsto> ''application/x-protobuf''], status = Some 200,
               body = ''value of <'' @ key @ ''>''\<rparr>, [Stats_ServerRequests_Add ''g'' 1])"
    for c path key
    by (simp add: serve_group_key_def example_registry_def example_lib_def example_request_def
        Write_def WriteHeader_def new_ResponseWriter_def)
  show ?thesis
    using g h1 h2
      ServeHTTP_splits_at_first_separator [OF g h1, of example_lib example_registry new_ResponseWriter]
      ServeHTTP_splits_at_first_separator [OF g h2, of example_lib example_registry new_ResponseWriter]
    by (simp add: e)
qed

text \<open>
  Claim C5. For a request under the base path: (1) when the remainder has fewer than two
  path segments the handler hands the malformed-request error to the error hook and does
  nothing else; (2) when it has two and the registry does not know the group name, it
  hands the group-not-found error to the hook; (3) handing an error to the hook means the
  response is what the configured \<^verbatim>\<open>ServerErrorHandler\<close> returns; (4) on a response that
  has no status yet the default hook writes status 400 for a malformed-request error, 404
  for a group-not-found error and 500 for every other error, with the error's text and a
  newline as the body.
\<close>

theorem ServeHTTP_error_routing:
  assumes "URL_Path r = BasePath (opts p) @ rest"
  shows "(length (path_segments rest) < 2 \<longrightarrow>
            ServeHTTP l reg p w r =
              call_ServerErrorHandler p (request_context p r) w r
                (BadGroupcacheRequestError ''invalid request URL (missing path parts)'') [])
       \<and> (2 \<le> length (path_segments rest) \<and> reg (hd (path_segments rest)) = None \<longrightarrow>
            ServeHTTP l reg p w r =
              call_ServerErrorHandler p (request_context p r) w r
                (GroupNotFoundError (hd (path_segments rest))) [])
       \<and> (ServerErrorHandler (opts p) = Some h \<longrightarrow>
            call_ServerErrorHandler p (request_context p r) w r e [] =
              Inr (h (request_context p r) w r e, []))
       \<and> (status w = None \<longrightarrow>
            status (DefaultServerErrorHandler l (request_context p r) w r e) =
              Some (case e of BadGroupcacheRequestError _ \<Rightarrow> 400
                            | GroupNotFoundError _ \<Rightarrow> 404 | _ \<Rightarrow> 500)
            \<and> body (DefaultServerErrorHandler l (request_context p r) w r e) =
                body w @ Error l e @ [CHR 0x0A])"
proof (intro conjI impI)
  assume "length (path_segments rest) < 2"
  then have "CHR ''/'' \<notin> set rest" by (simp add: few_segments_iff)
  then show "ServeHTTP l reg p w r =
      call_ServerErrorHandler p (request_context p r) w r
        (BadGroupcacheRequestError ''invalid request URL (missing path parts)'') []"
    using ServeHTTP_parsed [OF assms, of l reg w] by simp
next
  assume a: "2 \<le> length (path_segments rest) \<and> reg (hd (path_segments rest)) = None"
  then have "\<not> length (path_segments rest) < 2" by simp
  then have "CHR ''/'' \<in> set rest" by (simp add: few_segments_iff)
  moreover from a have "reg (takeWhile (\<lambda>x. x \<noteq> CHR ''/'') rest) = None"
    by (simp add: hd_path_segments)
  ultimately show "ServeHTTP l reg p w r =
      call_ServerErrorHandler p (request_context p r) w r
        (GroupNotFoundError (hd (path_segments rest))) []"
    using ServeHTTP_parsed [OF assms, of l reg w]
    by (simp add: serve_group_key_def hd_path_segments)
next
  assume "ServerErrorHandler (opts p) = Some h"
  then show "call_ServerErrorHandler p (request_context p r) w r e [] =
      Inr (h (request_context p r) w r e, [])"
    by (simp add: call_ServerErrorHandler_def)
next
  assume "status w = None"
  then show "status (DefaultServerErrorHandler l (request_context p r) w r e) =
      Some (case e of BadGroupcacheRequestError _ \<Rightarrow> 400
                    | GroupNotFoundError _ \<Rightarrow> 404 | _ \<Rightarrow> 500)"
    by (cases e) (simp_all add: DefaultServerErrorHandler_def http_Error_fresh)
next
  assume "status w = None"
  then show "body (DefaultServerErrorHandler l (request_context p r) w r e) =
      body w @ Error l e @ [CHR 0x0A]"
    by (cases e) (simp_all only: DefaultServerErrorHandler_def error.case http_Error_fresh)
qed

theorem ServeHTTP_error_routing_witness:
  "URL_Path (example_request ''/_groupcache/'') = BasePath (opts example_pool) @ []
   \<and> length (path_segments []) < 2
   \<and> ServerErrorHandler (opts example_pool) = Some (DefaultServerErrorHandler example_lib)
   \<and> status new_ResponseWriter = None
   \<and> (case ServeHTTP example_lib example_registry example_pool new_ResponseWriter
              (example_request ''/_groupcache/'') of
         Inl _ \<Rightarrow> False
       | Inr (w, effs) \<Rightarrow>
           status w = Some 400 \<and> effs = []
           \<and> body w = ''invalid request URL (missing path parts)'' @ [CHR 0x0A])
   \<and> URL_Path (example_request ''/_groupcache/missing/k'') = BasePath (opts example_pool) @ ''missing/k''
   \<and> 2 \<le> length (path_segments ''missing/k'')
   \<and> example_registry (hd (path_segments ''missing/k'')) = None
   \<and> (case ServeHTTP example_lib example_registry example_pool new_ResponseWriter
              (example_request ''/_groupcache/missing/k'') of
         Inl _ \<Rightarrow> False
       | Inr (w, effs) \<Rightarrow>
           status w = Some 404 \<and> effs = []
           \<and> body w = Error example_lib (GroupNotFoundError ''missing'') @ [CHR 0x0A])"
proof -
  have h1: "URL_Path (example_request ''/_groupcache/'') = BasePath (opts example_pool) @ []"
    by (simp add: example_request_def example_pool_def)
  have h2: "URL_Path (example_request ''/_groupcache/missing/k'') = BasePath (opts example_pool) @ ''missing/k''"
    by (simp add: example_request_def example_pool_def)
  have s1: "length (path_segments []) < 2" by simp
  have s2: "2 \<le> length (path_segments ''missing/k'')" by simp
  have s3: "hd (path_segments ''missing/k'') = ''missing''" by simp
  have r: "example_registry ''missing'' = None" by (simp add: example_registry_def)
  have w: "status new_ResponseWriter = None" by (simp add: new_ResponseWriter_def)
  have b: "body new_ResponseWriter = []" by (simp add: new_ResponseWriter_def)
  note t1 = ServeHTTP_error_routing [OF h1, of example_lib example_registry new_ResponseWriter
      "DefaultServerErrorHandler example_lib"
      "BadGroupcacheRequestError ''invalid request URL (missing path parts)''"]
  note t2 = ServeHTTP_error_routing [OF h2, of example_lib example_registry new_ResponseWriter
      "DefaultServerErrorHandler example_lib" "GroupNotFoundError ''missing''"]
  have c1: "ServeHTTP example_lib example_registry example_pool new_ResponseWriter
              (example_request ''/_groupcache/'') =
            Inr (DefaultServerErrorHandler example_lib
                   (request_context example_pool (example_request ''/_groupcache/''))
                   new_ResponseWriter (example_request ''/_groupcache/'')
                   (BadGroupcacheRequestError ''invalid request URL (missing path parts)''), [])"
    using t1 s1 example_pool_handler by simp
  have c2: "ServeHTTP example_lib example_registry example_pool new_ResponseWriter
              (example_request ''/_groupcache/missing/k'') =
            Inr (DefaultServerErrorHandler example_lib
                   (request_context example_pool (example_request ''/_groupcache/missing/k''))
                   new_ResponseWriter (example_request ''/_groupcache/missing/k'')
                   (GroupNotFoundError ''missing''), [])"
    using t2 s2 s3 r example_pool_handler by simp
  have d1: "status (DefaultServerErrorHandler example_lib
                   (request_context example_pool (example_request ''/_groupcache/''))
                   new_ResponseWriter (example_request ''/_groupcache/'')
                   (BadGroupcacheRequestError ''invalid request URL (missing path parts)'')) = Some 400"
     and d2: "body (DefaultServerErrorHandler example_lib
                   (request_context example_pool (example_request ''/_groupcache/''))
                   new_ResponseWriter (example_request ''/_groupcache/'')
                   (BadGroupcacheRequestError ''invalid request URL (missing path parts)'')) =
               ''invalid request URL (missing path parts)'' @ [CHR 0x0A]"
    using t1 w b by simp_all
  have d3: "status (DefaultServerErrorHandler example_lib
                   (request_context example_pool (example_request ''/_groupcache/missing/k''))
                   new_ResponseWriter (example_request ''/_groupcache/missing/k'')
                   (GroupNotFoundError ''missing'')) = Some 404"
     and d4: "body (DefaultServerErrorHandler example_lib
                   (request_context example_pool (example_request ''/_groupcache/missing/k''))
                   new_ResponseWriter (example_request ''/_groupcache/missing/k'')
                   (GroupNotFoundError ''missing'')) =
               Error example_lib (GroupNotFoundError ''missing'') @ [CHR 0x0A]"
    using t2 w b by simp_all
  show ?thesis
    unfolding c1 c2 using h1 h2 s1 s2 s3 r w example_pool_handler d1 d2 d3 d4
    by (simp only: sum.case prod.case simp_thms)
qed

section \<open>The peer transport: errors of Get and Remove\<close>

lemma makeRequest_round_trip:
  "makeRequest l h ctx verb req =
     (case http_NewRequest l verb (request_URL l h req) of
        Some nerr \<Rightarrow> Inl nerr
      | None \<Rightarrow> round_tripper l h ctx verb (request_URL l h req))"
  by (simp add: makeRequest_def Let_def split: option.splits sum.splits)

lemma io_Copy_reset_bytes:
  assumes "io_Copy mem (Buffer_Reset b0) grows data = (b, mem2)"
  shows "slice_bytes mem2 (Buffer_Bytes b) = data"
  using assms
  by (auto simp: io_Copy_def Buffer_Reset_def Buffer_Bytes_def slice_bytes_def Let_def
      split: option.splits if_splits)

lemma fill_buffer_bytes:
  assumes "fill_buffer mem pick grows data = (b, mem2)"
  shows "slice_bytes mem2 (Buffer_Bytes b) = data"
proof -
  obtain b0 mem1 where "bufferPool_Get mem pick = (b0, mem1)"
    by (cases "bufferPool_Get mem pick")
  with assms have "io_Copy mem1 (Buffer_Reset b0) grows data = (b, mem2)"
    by (simp add: fill_buffer_def)
  then show ?thesis by (rule io_Copy_reset_bytes)
qed

lemma Get_cases:
  "get_err (Get l h ctx req out mem pick grows) =
     (case makeRequest l h ctx ''GET'' req of
        Inl terr \<Rightarrow> Some (RemoteLoadError (req_group req) (req_key req) 0 [] None (Some terr))
      | Inr res \<Rightarrow>
          if resp_StatusCode res \<noteq> 200
          then Some (RemoteLoadError (req_group req) (req_key req) (resp_StatusCode res)
                       (resp_Status res)
                       (Buffer_Bytes (fst (fill_buffer mem pick grows (resp_Body res))))
                       (Some (errors_Errorf ''non-OK response code: %d %s''
                                [ArgInt (resp_StatusCode res), ArgStr (resp_Status res)])))
          else (case resp_Body_err res of
                  Some rerr \<Rightarrow>
                    Some (RemoteLoadError (req_group req) (req_key req) (resp_StatusCode res)
                            (resp_Status res) None
                            (Some (errors_Wrapf rerr ''reading response body'')))
                | None \<Rightarrow>
                    (case fst (proto_Unmarshal l (resp_Body res) out) of
                       Some derr \<Rightarrow>
                         Some (RemoteLoadError (req_group req) (req_key req) (resp_StatusCode res)
                                 (resp_Status res)
                                 (Buffer_Bytes (fst (fill_buffer mem pick grows (resp_Body res))))
                                 (Some (errors_Wrapf derr ''decoding response body'')))
                     | None \<Rightarrow> None)))"
proof (cases "makeRequest l h ctx ''GET'' req")
  case (Inl terr)
  then show ?thesis by (simp add: Get_def newRemoteLoadError_def)
next
  case (Inr res)
  obtain b mem2 where f: "fill_buffer mem pick grows (resp_Body res) = (b, mem2)"
    by (cases "fill_buffer mem pick grows (resp_Body res)")
  from fill_buffer_bytes [OF f] have sb: "slice_bytes mem2 (Buffer_Bytes b) = resp_Body res" .
  show ?thesis
    by (simp add: Get_def Inr f sb newRemoteLoadErrorWithResp_def Let_def
        split: option.splits prod.splits)
qed

lemma Remove_cases:
  "Remove l h ctx req =
     (case makeRequest l h ctx ''DELETE'' req of
        Inl terr \<Rightarrow> Some terr
      | Inr res \<Rightarrow>
          if resp_StatusCode res = 200 then None
          else if resp_Body_err res = None
          then Some (fmt_Errorf ''server returned status %d: %s''
                       [ArgInt (resp_StatusCode res), ArgBytes (resp_Body res)])
          else Some (fmt_Errorf ''while reading body response: %v'' [ArgStr (resp_Status res)]))"
  by (simp add: Remove_def split: sum.splits option.splits)

lemma answering_makeRequest:
  "makeRequest example_lib (answering_getter res) () verb example_GetRequest = Inr res"
  by (simp add: makeRequest_def round_tripper_def answering_getter_def example_lib_def)

lemma unreachable_makeRequest:
  "makeRequest example_lib example_getter () verb example_GetRequest
     = Inl (External ''connection refused'')"
  by (simp add: makeRequest_def round_tripper_def example_lib_def example_getter_def)

lemma example_GetRequest_fields:
  "req_group example_GetRequest = ''g''" "req_key example_GetRequest = ''k''"
  by (simp_all add: example_GetRequest_def)

lemma Get_body_at_return:
  assumes "makeRequest l h ctx ''GET'' req = Inr res"
    and "get_err (Get l h ctx req out mem pick grows) = Some e"
    and "resp_StatusCode res \<noteq> 200 \<or> resp_Body_err res = None"
  shows "slice_bytes (get_mem (Get l h ctx req out mem pick grows)) (Body e) = resp_Body res"
proof -
  obtain b mem2 where f: "fill_buffer mem pick grows (resp_Body res) = (b, mem2)"
    by (cases "fill_buffer mem pick grows (resp_Body res)")
  from fill_buffer_bytes [OF f] have sb: "slice_bytes mem2 (Buffer_Bytes b) = resp_Body res" .
  have put: "slice_bytes (bufferPool_Put mem2 b) sl = slice_bytes mem2 sl" for sl
    by (simp add: slice_bytes_def bufferPool_Put_def split: option.splits byte_slice.splits)
  from assms show ?thesis
    by (auto simp: Get_def f sb put newRemoteLoadErrorWithResp_def Let_def
        split: option.splits prod.splits if_splits)
qed

lemma first_Get_value:
  "first_Get =
     \<lparr>get_err = Some (RemoteLoadError ''g'' ''k'' 500 ''500 Internal Server Error''
                        (Some (Slice 0 10))
                        (Some (errors_Errorf ''non-OK response code: %d %s''
                                 [ArgInt 500, ArgStr ''500 Internal Server Error'']))),
      get_out = zero_GetResponse,
      get_mem = \<lparr>arrays = [0 \<mapsto> ''first body''], next_array = 1,
                  bufferPool = [\<lparr>buf_array = Some 0, buf_len = 10\<rparr>]\<rparr>\<rparr>"
  by (simp add: first_Get_def Get_def answering_makeRequest first_answer_def fill_buffer_def
      bufferPool_Get_def bufferPool_Put_def Buffer_Reset_def Buffer_Bytes_def io_Copy_def
      initial_memory_def newRemoteLoadErrorWithResp_def example_GetRequest_fields Let_def)

lemma second_Get_value:
  "second_Get =
     \<lparr>get_err = Some (RemoteLoadError ''g'' ''k'' 500 ''500 Internal Server Error''
                        (Some (Slice 0 3))
                        (Some (errors_Errorf ''non-OK response code: %d %s''
                                 [ArgInt 500, ArgStr ''500 Internal Server Error'']))),
      get_out = zero_GetResponse,
      get_mem = \<lparr>arrays = [0 \<mapsto> ''2ndst body''], next_array = 1,
                  bufferPool = [\<lparr>buf_array = Some 0, buf_len = 3\<rparr>]\<rparr>\<rparr>"
  by (simp add: second_Get_def first_Get_value Get_def answering_makeRequest second_answer_def
      fill_buffer_def bufferPool_Get_def bufferPool_Put_def Buffer_Reset_def Buffer_Bytes_def
      io_Copy_def newRemoteLoadErrorWithResp_def example_GetRequest_fields Let_def)

lemma fill_fresh:
  "Buffer_Bytes (fst (fill_buffer initial_memory None False data)) = Some (Slice 0 (length data))"
  by (simp add: fill_buffer_def bufferPool_Get_def Buffer_Reset_def Buffer_Bytes_def io_Copy_def
      initial_memory_def Let_def)

text \<open>
  Claim C3 says what the error of the client-side \<^verbatim>\<open>Get\<close> carries: no status and no body
  when the round trip fails, the status and the raw response body on a non-success
  status, the raw body and the decode failure when the body does not decode. The code
  builds these errors, and when \<^verbatim>\<open>Get\<close> returns the \<^verbatim>\<open>Body\<close> of the error shows the response
  body (\<open>Get_body_at_return\<close>). But \<^verbatim>\<open>Body\<close> is \<^verbatim>\<open>b.Bytes()\<close>, a slice of the array of a pooled
  buffer that the deferred \<^verbatim>\<open>bufferPool.Put(b)\<close> has given back, so the error does not keep
  the body: after a second \<^verbatim>\<open>Get\<close> that is handed the same buffer, the body of the first
  error, \<^verbatim>\<open>first body\<close>, reads \<^verbatim>\<open>2ndst body\<close>.
\<close>

theorem Get_error_body_overwritten:
  "get_err first_Get =
     Some (RemoteLoadError ''g'' ''k'' 500 ''500 Internal Server Error'' (Some (Slice 0 10))
             (Some (errors_Errorf ''non-OK response code: %d %s''
                      [ArgInt 500, ArgStr ''500 Internal Server Error''])))
   \<and> slice_bytes (get_mem first_Get) (Some (Slice 0 10)) = ''first body''
   \<and> slice_bytes (get_mem second_Get) (Some (Slice 0 10)) = ''2ndst body''"
  by (simp add: first_Get_value second_Get_value slice_bytes_def)

text \<open>
  Claim C4 says that every error of both client operations, \<^verbatim>\<open>Get\<close> and \<^verbatim>\<open>Remove\<close>, has the
  remote-load error shape. \<^verbatim>\<open>Remove\<close> does not wrap: against an unreachable peer it
  returns the transport's error as it is.
\<close>

theorem Remove_error_not_normalized:
  "Remove example_lib example_getter () example_GetRequest = Some (External ''connection refused'')
   \<and> \<not> is_RemoteLoadError (External ''connection refused'')"
  by (simp add: Remove_cases unreachable_makeRequest)

text \<open>
  Claim C4 as amended. Every error returned by \<^verbatim>\<open>Get\<close> is a \<^verbatim>\<open>RemoteLoadError\<close> that names the
  requested group and key and whose cause \<^verbatim>\<open>Unwrap\<close> gives back. The cause is the request or
  transport error itself when the request failed; the error naming the status when the
  status code is not 200; the read error, wrapped, when reading the body failed; and the
  decode error, wrapped, when the body did not decode. \<^verbatim>\<open>Get\<close> returns nil only for a
  response with status 200 whose body was read and decoded. \<^verbatim>\<open>Remove\<close> returns its errors as
  they are: the request or transport error unchanged when the request failed; when the
  status code is not 200, a plain formatted error with the status code and the body, or
  with the status text when the body could not be read; and nil when the status code is
  200.
\<close>

theorem Get_errors_normalized_Remove_plain:
  "(get_err (Get l h ctx req out mem pick grows) = Some e \<longrightarrow>
      is_RemoteLoadError e \<and> Group e = req_group req \<and> Key e = req_key req
      \<and> Unwrap e = Err e \<and> Err e \<noteq> None)
   \<and> (makeRequest l h ctx ''GET'' req = Inl terr \<longrightarrow>
        get_err (Get l h ctx req out mem pick grows) =
          Some (RemoteLoadError (req_group req) (req_key req) 0 [] None (Some terr)))
   \<and> (makeRequest l h ctx ''GET'' req = Inr res \<and> resp_StatusCode res \<noteq> 200 \<longrightarrow>
        get_err (Get l h ctx req out mem pick grows) =
          Some (RemoteLoadError (req_group req) (req_key req) (resp_StatusCode res)
                  (resp_Status res)
                  (Buffer_Bytes (fst (fill_buffer mem pick grows (resp_Body res))))
                  (Some (errors_Errorf ''non-OK response code: %d %s''
                           [ArgInt (resp_StatusCode res), ArgStr (resp_Status res)]))))
   \<and> (makeRequest l h ctx ''GET'' req = Inr res \<and> resp_StatusCode res = 200
        \<and> resp_Body_err res = Some rerr \<longrightarrow>
        get_err (Get l h ctx req out mem pick grows) =
          Some (RemoteLoadError (req_group req) (req_key req) 200 (resp_Status res) None
                  (Some (errors_Wrapf rerr ''reading response body''))))
   \<and> (makeRequest l h ctx ''GET'' req = Inr res \<and> resp_StatusCode res = 200
        \<and> resp_Body_err res = None
        \<and> fst (proto_Unmarshal l (resp_Body res) out) = Some derr \<longrightarrow>
        get_err (Get l h ctx req out mem pick grows) =
          Some (RemoteLoadError (req_group req) (req_key req) 200 (resp_Status res)
                  (Buffer_Bytes (fst (fill_buffer mem pick grows (resp_Body res))))
                  (Some (errors_Wrapf derr ''decoding response body''))))
   \<and> (makeRequest l h ctx ''GET'' req = Inr res \<and> resp_StatusCode res = 200
        \<and> resp_Body_err res = None
        \<and> fst (proto_Unmarshal l (resp_Body res) out) = None \<longrightarrow>
        get_err (Get l h ctx req out mem pick grows) = None)
   \<and> (makeRequest l h ctx ''DELETE'' req = Inl terr \<longrightarrow> Remove l h ctx req = Some terr)
   \<and> (makeRequest l h ctx ''DELETE'' req = Inr res \<and> resp_StatusCode res \<noteq> 200
        \<and> resp_Body_err res = None \<longrightarrow>
        Remove l h ctx req =
          Some (fmt_Errorf ''server returned status %d: %s''
                  [ArgInt (resp_StatusCode res), ArgBytes (resp_Body res)]))
   \<and> (makeRequest l h ctx ''DELETE'' req = Inr res \<and> resp_StatusCode res \<noteq> 200
        \<and> resp_Body_err res = Some rerr \<longrightarrow>
        Remove l h ctx req =
          Some (fmt_Errorf ''while reading body response: %v'' [ArgStr (resp_Status res)]))
   \<and> (makeRequest l h ctx ''DELETE'' req = Inr res \<and> resp_StatusCode res = 200 \<longrightarrow>
        Remove l h ctx req = None)"
proof (intro conjI impI)
  assume "get_err (Get l h ctx req out mem pick grows) = Some e"
  then show "is_RemoteLoadError e" "Group e = req_group req" "Key e = req_key req"
    "Unwrap e = Err e" "Err e \<noteq> None"
    by (auto simp: Get_cases split: sum.splits if_splits option.splits)
qed (simp_all add: Get_cases Remove_cases)

theorem Get_errors_normalized_Remove_plain_witness:
  "makeRequest example_lib example_getter () ''GET'' example_GetRequest
     = Inl (External ''connection refused'')
   \<and> get_err (Get example_lib example_getter () example_GetRequest zero_GetResponse
               initial_memory None False)
       = Some (RemoteLoadError ''g'' ''k'' 0 [] None (Some (External ''connection refused'')))
   \<and> Unwrap (RemoteLoadError ''g'' ''k'' 0 [] None (Some (External ''connection refused'')))
       = Some (External ''connection refused'')
   \<and> makeRequest example_lib example_getter () ''DELETE'' example_GetRequest
       = Inl (External ''connection refused'')
   \<and> Remove example_lib example_getter () example_GetRequest
       = Some (External ''connection refused'')
   \<and> get_err (Get example_lib (answering_getter first_answer) () example_GetRequest
               zero_GetResponse initial_memory None False)
       = Some (RemoteLoadError ''g'' ''k'' 500 ''500 Internal Server Error'' (Some (Slice 0 10))
                 (Some (errors_Errorf ''non-OK response code: %d %s''
                          [ArgInt 500, ArgStr ''500 Internal Server Error''])))
   \<and> Remove example_lib (answering_getter first_answer) () example_GetRequest
       = Some (fmt_Errorf ''server returned status %d: %s'' [ArgInt 500, ArgBytes ''first body''])
   \<and> Remove example_lib (answering_getter answer_500_cut) () example_GetRequest
       = Some (fmt_Errorf ''while reading body response: %v''
                 [ArgStr ''500 Internal Server Error''])
   \<and> get_err (Get example_lib (answering_getter answer_200_cut) () example_GetRequest
               zero_GetResponse initial_memory None False)
       = Some (RemoteLoadError ''g'' ''k'' 200 ''200 OK'' None
                 (Some (errors_Wrapf (External ''unexpected EOF'') ''reading response body'')))
   \<and> get_err (Get example_lib (answering_getter answer_200_garbage) () example_GetRequest
               zero_GetResponse initial_memory None False)
       = Some (RemoteLoadError ''g'' ''k'' 200 ''200 OK'' (Some (Slice 0 13))
                 (Some (errors_Wrapf (External ''cannot parse invalid wire-format data'')
                          ''decoding response body'')))
   \<and> Remove example_lib (answering_getter answer_200_garbage) () example_GetRequest = None
   \<and> get_err (Get example_lib (answering_getter answer_200_ok) () example_GetRequest
               zero_GetResponse initial_memory None False) = None"
proof -
  note T = Get_errors_normalized_Remove_plain [where l = example_lib and ctx = "()"
      and req = example_GetRequest and out = zero_GetResponse and mem = initial_memory
      and pick = None and grows = False]
  let ?refused = "External ''connection refused''"
  let ?eof = "External ''unexpected EOF''"
  let ?parse = "External ''cannot parse invalid wire-format data''"
  have mg: "makeRequest example_lib example_getter () ''GET'' example_GetRequest = Inl ?refused"
    and md: "makeRequest example_lib example_getter () ''DELETE'' example_GetRequest = Inl ?refused"
    by (rule unreachable_makeRequest)+
  have st: "resp_StatusCode first_answer = 500" "resp_Status first_answer = ''500 Internal Server Error''"
    "resp_Body first_answer = ''first body''" "resp_Body_err first_answer = None"
    by (simp_all add: first_answer_def)
  have c5: "resp_StatusCode answer_500_cut = 500"
    "resp_Status answer_500_cut = ''500 Internal Server Error''"
    "resp_Body_err answer_500_cut = Some ?eof"
    by (simp_all add: answer_500_cut_def)
  have c2: "resp_StatusCode answer_200_cut = 200" "resp_Status answer_200_cut = ''200 OK''"
    "resp_Body_err answer_200_cut = Some ?eof"
    by (simp_all add: answer_200_cut_def)
  have g2: "resp_StatusCode answer_200_garbage = 200" "resp_Status answer_200_garbage = ''200 OK''"
    "resp_Body answer_200_garbage = ''not a message''" "resp_Body_err answer_200_garbage = None"
    by (simp_all add: answer_200_garbage_def)
  have o2: "resp_StatusCode answer_200_ok = 200" "resp_Body answer_200_ok = ''abc''"
    "resp_Body_err answer_200_ok = None"
    by (simp_all add: answer_200_ok_def)
  have u1: "fst (proto_Unmarshal example_lib ''not a message'' zero_GetResponse) = Some ?parse"
    and u2: "fst (proto_Unmarshal example_lib ''abc'' zero_GetResponse) = None"
    by (simp_all add: example_lib_def)
  have a1: "get_err (Get example_lib example_getter () example_GetRequest zero_GetResponse
               initial_memory None False)
       = Some (RemoteLoadError ''g'' ''k'' 0 [] None (Some ?refused))"
    using T [where h = example_getter and terr = ?refused] mg
    by (simp add: example_GetRequest_fields)
  have a2: "Unwrap (RemoteLoadError ''g'' ''k'' 0 [] None (Some ?refused)) = Some ?refused"
    using T [where h = example_getter
        and e = "RemoteLoadError ''g'' ''k'' 0 [] None (Some ?refused)"] a1
    by simp
  have a3: "Remove example_lib example_getter () example_GetRequest = Some ?refused"
    using T [where h = example_getter and terr = ?refused] md by blast
  have b1: "get_err (Get example_lib (answering_getter first_answer) () example_GetRequest
               zero_GetResponse initial_memory None False)
       = Some (RemoteLoadError ''g'' ''k'' 500 ''500 Internal Server Error'' (Some (Slice 0 10))
                 (Some (errors_Errorf ''non-OK response code: %d %s''
                          [ArgInt 500, ArgStr ''500 Internal Server Error''])))"
    using T [where h = "answering_getter first_answer" and res = first_answer]
    by (simp add: answering_makeRequest st fill_fresh example_GetRequest_fields)
  have b2: "Remove example_lib (answering_getter first_answer) () example_GetRequest
       = Some (fmt_Errorf ''server returned status %d: %s'' [ArgInt 500, ArgBytes ''first body''])"
    using T [where h = "answering_getter first_answer" and res = first_answer]
    by (simp add: answering_makeRequest st)
  have b3: "Remove example_lib (answering_getter answer_500_cut) () example_GetRequest
       = Some (fmt_Errorf ''while reading body response: %v''
                 [ArgStr ''500 Internal Server Error''])"
    using T [where h = "answering_getter answer_500_cut" and res = answer_500_cut and rerr = ?eof]
    by (simp add: answering_makeRequest c5)
  have b4: "get_err (Get example_lib (answering_getter answer_200_cut) () example_GetRequest
               zero_GetResponse initial_memory None False)
       = Some (RemoteLoadError ''g'' ''k'' 200 ''200 OK'' None
                 (Some (errors_Wrapf ?eof ''reading response body'')))"
    using T [where h = "answering_getter answer_200_cut" and res = answer_200_cut and rerr = ?eof]
    by (simp add: answering_makeRequest c2 example_GetRequest_fields)
  have b5: "get_err (Get example_lib (answering_getter answer_200_garbage) () example_GetRequest
               zero_GetResponse initial_memory None False)
       = Some (RemoteLoadError ''g'' ''k'' 200 ''200 OK'' (Some (Slice 0 13))
                 (Some (errors_Wrapf ?parse ''decoding response body'')))"
    using T [where h = "answering_getter answer_200_garbage" and res = answer_200_garbage
        and derr = ?parse]
    by (simp add: answering_makeRequest g2 u1 fill_fresh example_GetRequest_fields)
  have b6: "Remove example_lib (answering_getter answer_200_garbage) () example_GetRequest = None"
    using T [where h = "answering_getter answer_200_garbage" and res = answer_200_garbage]
    by (simp add: answering_makeRequest g2)
  have b7: "get_err (Get example_lib (answering_getter answer_200_ok) () example_GetRequest
               zero_GetResponse initial_memory None False) = None"
    using T [where h = "answering_getter answer_200_ok" and res = answer_200_ok]
    by (simp add: answering_makeRequest o2 u2)
  from mg a1 a2 md a3 b1 b2 b3 b4 b5 b6 b7 show ?thesis
    by (intro conjI)
qed

section \<open>The peer pool: picking a peer and construction\<close>

text \<open>
  Claim C6. \<^verbatim>\<open>PickPeer\<close> answers "no remote peer" (nil, false) exactly when the ring is
  empty or the owner the ring chooses for the key is the pool's own identity; otherwise it
  answers with the entry of \<^verbatim>\<open>httpGetters\<close> for the chosen owner and true. The answer is a
  function of the key, the ring, the identity and the transport map alone, so for a fixed
  ring configuration the same key always gives the same peer.
\<close>

theorem PickPeer_spec:
  "(PickPeer ro p key = (None, False)
      \<longleftrightarrow> ring_IsEmpty ro (peers p) \<or> ring_Get ro (peers p) key = self p)
   \<and> (\<not> ring_IsEmpty ro (peers p) \<and> ring_Get ro (peers p) key \<noteq> self p \<longrightarrow>
        PickPeer ro p key = (httpGetters p (ring_Get ro (peers p) key), True))
   \<and> (peers p' = peers p \<and> self p' = self p \<and> httpGetters p' = httpGetters p \<longrightarrow>
        PickPeer ro p' key = PickPeer ro p key)"
  by (simp add: PickPeer_def Let_def)

lemma example_Set_peers:
  "Set_peers example_ring_ops example_pool [''http://a:8000'', ''http://b:8000''] =
     example_pool
       \<lparr>peers := [''http://a:8000'', ''http://b:8000''],
        httpGetters :=
          [''http://a:8000'' \<mapsto> \<lparr>getTransport = None, baseURL = ''http://a:8000/_groupcache/''\<rparr>,
           ''http://b:8000'' \<mapsto> \<lparr>getTransport = None, baseURL = ''http://b:8000/_groupcache/''\<rparr>]\<rparr>"
  by (simp add: Set_peers_def example_ring_ops_def example_pool_def)

theorem PickPeer_spec_witness:
  "ring_IsEmpty example_ring_ops (peers example_pool)
   \<and> PickPeer example_ring_ops example_pool ''k'' = (None, False)
   \<and> \<not> ring_IsEmpty example_ring_ops
         (peers (Set_peers example_ring_ops example_pool [''http://a:8000'', ''http://b:8000'']))
   \<and> ring_Get example_ring_ops
         (peers (Set_peers example_ring_ops example_pool [''http://a:8000'', ''http://b:8000'']))
         ''k'' = ''http://b:8000''
   \<and> ''http://b:8000'' \<noteq> self (Set_peers example_ring_ops example_pool [''http://a:8000'', ''http://b:8000''])
   \<and> PickPeer example_ring_ops
         (Set_peers example_ring_ops example_pool [''http://a:8000'', ''http://b:8000'']) ''k''
       = (Some \<lparr>getTransport = None, baseURL = ''http://b:8000/_groupcache/''\<rparr>, True)
   \<and> ring_Get example_ring_ops
         (peers (Set_peers example_ring_ops example_pool [''http://a:8000'', ''http://b:8000'']))
         ''kk'' = self (Set_peers example_ring_ops example_pool [''http://a:8000'', ''http://b:8000''])
   \<and> PickPeer example_ring_ops
         (Set_peers example_ring_ops example_pool [''http://a:8000'', ''http://b:8000'']) ''kk''
       = (None, False)
   \<and> PickPeer example_ring_ops
         ((Set_peers example_ring_ops example_pool [''http://a:8000'', ''http://b:8000''])
            \<lparr>opts := zero_HTTPPoolOptions\<rparr>) ''k''
       = PickPeer example_ring_ops
           (Set_peers example_ring_ops example_pool [''http://a:8000'', ''http://b:8000'']) ''k''"
proof -
  let ?p = "Set_peers example_ring_ops example_pool [''http://a:8000'', ''http://b:8000'']"
  have e: "ring_IsEmpty example_ring_ops (peers example_pool)"
    by (simp add: example_ring_ops_def example_pool_def)
  have n: "\<not> ring_IsEmpty example_ring_ops (peers ?p)"
    by (simp add: example_Set_peers) (simp add: example_ring_ops_def)
  have s: "self ?p = ''http://a:8000''"
    by (simp add: example_Set_peers) (simp add: example_pool_def)
  have g1: "ring_Get example_ring_ops (peers ?p) ''k'' = ''http://b:8000''"
    by (simp add: example_Set_peers) (simp add: example_ring_ops_def)
  have g2: "ring_Get example_ring_ops (peers ?p) ''kk'' = ''http://a:8000''"
    by (simp add: example_Set_peers) (simp add: example_ring_ops_def)
  have h: "httpGetters ?p ''http://b:8000''
      = Some \<lparr>getTransport = None, baseURL = ''http://b:8000/_groupcache/''\<rparr>"
    by (simp add: example_Set_peers)
  have q: "peers (?p\<lparr>opts := zero_HTTPPoolOptions\<rparr>) = peers ?p
      \<and> self (?p\<lparr>opts := zero_HTTPPoolOptions\<rparr>) = self ?p
      \<and> httpGetters (?p\<lparr>opts := zero_HTTPPoolOptions\<rparr>) = httpGetters ?p"
    by simp
  from PickPeer_spec [of example_ring_ops ?p "''k''" "?p\<lparr>opts := zero_HTTPPoolOptions\<rparr>"] q
  have d: "PickPeer example_ring_ops (?p\<lparr>opts := zero_HTTPPoolOptions\<rparr>) ''k''
      = PickPeer example_ring_ops ?p ''k''"
    by blast
  have "ring_IsEmpty example_ring_ops (peers example_pool)
      \<and> PickPeer example_ring_ops example_pool ''k'' = (None, False)
      \<and> \<not> ring_IsEmpty example_ring_ops (peers ?p)
      \<and> ring_Get example_ring_ops (peers ?p) ''k'' = ''http://b:8000''
      \<and> ''http://b:8000'' \<noteq> self ?p
      \<and> PickPeer example_ring_ops ?p ''k''
          = (Some \<lparr>getTransport = None, baseURL = ''http://b:8000/_groupcache/''\<rparr>, True)
      \<and> ring_Get example_ring_ops (peers ?p) ''kk'' = self ?p
      \<and> PickPeer example_ring_ops ?p ''kk'' = (None, False)"
    using e n s g1 g2 h
      PickPeer_spec [of example_ring_ops example_pool "''k''" example_pool]
      PickPeer_spec [of example_ring_ops ?p "''k''" ?p]
      PickPeer_spec [of example_ring_ops ?p "''kk''" ?p]
    by simp
  with d show ?thesis by (simp only: simp_thms)
qed

text \<open>
  Claim C7. In a process state where no pool has been made, \<^verbatim>\<open>NewHTTPPoolOpts\<close> returns a
  pool with the given identity, sets \<^verbatim>\<open>httpPoolMade\<close> and registers the factory that
  returns this pool as the peer picker. In a state where \<^verbatim>\<open>httpPoolMade\<close> is set, and so in
  the state any successful construction leaves behind, the call panics and returns no
  pool. Nothing in the code clears \<^verbatim>\<open>httpPoolMade\<close>.
\<close>

theorem NewHTTPPoolOpts_singleton:
  "(\<not> httpPoolMade g \<longrightarrow>
      (\<exists>p. NewHTTPPoolOpts l ro s opt g =
              Inr (p, g\<lparr>httpPoolMade := True, portPicker := Some (\<lambda>_. p)\<rparr>)
           \<and> self p = s))
   \<and> (httpPoolMade g \<longrightarrow>
        NewHTTPPoolOpts l ro s opt g = Inl ''groupcache: NewHTTPPool must be called only once'')
   \<and> (NewHTTPPoolOpts l ro s opt g = Inr (p, g') \<longrightarrow>
        httpPoolMade g' \<and> portPicker g' = Some (\<lambda>_. p)
        \<and> NewHTTPPoolOpts l ro s' opt' g' =
            Inl ''groupcache: NewHTTPPool must be called only once'')"
proof (intro conjI impI)
  assume "\<not> httpPoolMade g"
  then show "\<exists>p. NewHTTPPoolOpts l ro s opt g =
              Inr (p, g\<lparr>httpPoolMade := True, portPicker := Some (\<lambda>_. p)\<rparr>)
           \<and> self p = s"
    by (simp add: NewHTTPPoolOpts_def RegisterPeerPicker_def Let_def)
next
  assume "httpPoolMade g"
  then show "NewHTTPPoolOpts l ro s opt g = Inl ''groupcache: NewHTTPPool must be called only once''"
    by (simp add: NewHTTPPoolOpts_def)
next
  assume a: "NewHTTPPoolOpts l ro s opt g = Inr (p, g')"
  then have n: "\<not> httpPoolMade g"
    by (auto simp: NewHTTPPoolOpts_def)
  with a have g': "g' = g\<lparr>httpPoolMade := True, portPicker := Some (\<lambda>_. p)\<rparr>"
    by (auto simp: NewHTTPPoolOpts_def RegisterPeerPicker_def Let_def)
  show "httpPoolMade g'" "portPicker g' = Some (\<lambda>_. p)"
    by (simp_all add: g')
  show "NewHTTPPoolOpts l ro s' opt' g' = Inl ''groupcache: NewHTTPPool must be called only once''"
    by (simp add: g' NewHTTPPoolOpts_def)
qed

lemma example_first_pool:
  "\<lparr>self = ''http://a:8000'',
     opts = \<lparr>BasePath = defaultBasePath, Replicas = defaultReplicas, HashFn = None, Transport = None,
              Context = None, ServerErrorHandler = Some (DefaultServerErrorHandler example_lib)\<rparr>,
      peers = consistenthash_New example_ring_ops defaultReplicas None, httpGetters = Map.empty\<rparr> = example_pool"
  by (simp add: example_pool_def defaultBasePath_def defaultReplicas_def example_ring_ops_def)

lemma example_first_construction:
  "NewHTTPPoolOpts example_lib example_ring_ops ''http://a:8000'' None initial_globals =
     Inr (example_pool, \<lparr>httpPoolMade = True, portPicker = Some (\<lambda>_. example_pool)\<rparr>)"
proof -
  have "NewHTTPPoolOpts example_lib example_ring_ops ''http://a:8000'' None
          (initial_globals :: (unit, unit, string list) globals) =
     Inr (\<lparr>self = ''http://a:8000'',
     opts = \<lparr>BasePath = defaultBasePath, Replicas = defaultReplicas, HashFn = None, Transport = None,
              Context = None, ServerErrorHandler = Some (DefaultServerErrorHandler example_lib)\<rparr>,
      peers = consistenthash_New example_ring_ops defaultReplicas None, httpGetters = Map.empty\<rparr>, 
      \<lparr>httpPoolMade = True, portPicker = Some (\<lambda>_. \<lparr>self = ''http://a:8000'',
     opts = \<lparr>BasePath = defaultBasePath, Replicas = defaultReplicas, HashFn = None, Transport = None,
              Context = None, ServerErrorHandler = Some (DefaultServerErrorHandler example_lib)\<rparr>,
      peers = consistenthash_New example_ring_ops defaultReplicas None, httpGetters = Map.empty\<rparr>)\<rparr>)"
    by (simp add: NewHTTPPoolOpts_def RegisterPeerPicker_def initial_globals_def
      zero_HTTPPoolOptions_def Let_def)
  then show ?thesis by (simp only: example_first_pool)
qed

theorem NewHTTPPoolOpts_singleton_witness:
  "\<not> httpPoolMade (initial_globals :: (unit, unit, string list) globals)
   \<and> NewHTTPPoolOpts example_lib example_ring_ops ''http://a:8000'' None initial_globals =
       Inr (example_pool, \<lparr>httpPoolMade = True, portPicker = Some (\<lambda>_. example_pool)\<rparr>)
   \<and> httpPoolMade \<lparr>httpPoolMade = True, portPicker = Some (\<lambda>_. example_pool)\<rparr>
   \<and> NewHTTPPoolOpts example_lib example_ring_ops ''http://b:8000'' None
         \<lparr>httpPoolMade = True, portPicker = Some (\<lambda>_. example_pool)\<rparr> =
       Inl ''groupcache: NewHTTPPool must be called only once''"
proof -
  let ?g' = "\<lparr>httpPoolMade = True, portPicker = Some (\<lambda>_. example_pool)\<rparr>"
  have i: "\<not> httpPoolMade (initial_globals :: (unit, unit, string list) globals)"
    by (simp add: initial_globals_def)
  have m: "httpPoolMade ?g'" by simp
  note t = NewHTTPPoolOpts_singleton [of initial_globals example_lib example_ring_ops
        "''http://a:8000''" None example_pool ?g' "''http://b:8000''" None]
  from t example_first_construction
  have c: "NewHTTPPoolOpts example_lib example_ring_ops ''http://b:8000'' None ?g' =
       Inl ''groupcache: NewHTTPPool must be called only once''"
    by blast
  from i example_first_construction m c show ?thesis
    by (intro conjI)
qed

section \<open>Duplicate call suppression: the invariant of the steps\<close>

lemma invariant_initial: "invariant initial_state"
  by (simp add: invariant_def frame_ok_def no_call_def initial_state_def the_map_def)

lemma map_entry_leading:
  assumes "invariant s" and "the_map s k = Some c"
  shows "leading (pcs s c) = Some (k, c)"
proof -
  from assms(1) have f: "frame_ok s c" by (simp add: invariant_def)
  show ?thesis
  proof (cases "pcs s c")
    case Idle
    with f assms(2) show ?thesis by (auto simp: frame_ok_def no_call_def)
  next
    case (Waiting x21 x22)
    with f assms(2) show ?thesis by (auto simp: frame_ok_def no_call_def)
  next
    case (Woken x31 x32)
    with f assms(2) show ?thesis by (auto simp: frame_ok_def no_call_def)
  next
    case (Leader x41 x42)
    with f assms(2) show ?thesis by (auto simp: frame_ok_def owns_def)
  next
    case (Running x51 x52)
    with f assms(2) show ?thesis by (auto simp: frame_ok_def owns_def)
  next
    case (Deferred_Done x61 x62 x63)
    with f assms(2) show ?thesis by (auto simp: frame_ok_def owns_def)
  next
    case (Deferred_Delete x71 x72 x73)
    with f assms(2) show ?thesis by (auto simp: frame_ok_def owns_def)
  next
    case (Exited_leader x81 x82 x83)
    with f assms(2) show ?thesis by (auto simp: frame_ok_def)
  next
    case (Exited_follower x91 x92 x93)
    with f assms(2) show ?thesis by (auto simp: frame_ok_def no_call_def)
  qed
qed

lemma the_map_upd [simp]:
  "the_map (s\<lparr>Group_m := Some mp\<rparr>) = mp"
  "the_map (s\<lparr>pcs := p\<rparr>) = the_map s"
  "the_map (s\<lparr>heap := h\<rparr>) = the_map s"
  "the_map (s\<lparr>fn_calls := f\<rparr>) = the_map s"
  by (simp_all add: the_map_def)

lemma frame_ok_other:
  assumes "frame_ok s i"
    and "pcs s' i = pcs s i" and "heap s' i = heap s i" and "fn_calls s' i = fn_calls s i"
    and "\<And>k. (the_map s' k = Some i) = (the_map s k = Some i)"
    and "\<And>key c. pcs s i = Waiting key c \<or> pcs s i = Woken key c
            \<or> (\<exists>out. pcs s i = Exited_follower key c out)
          \<Longrightarrow> call_of (pcs s' c) = call_of (pcs s c)"
    and "\<And>key c. pcs s i = Woken key c \<or> (\<exists>out. pcs s i = Exited_follower key c out)
          \<Longrightarrow> heap s' c = heap s c"
  shows "frame_ok s' i"
  using assms
  by (cases "pcs s i") (simp_all add: frame_ok_def no_call_def owns_def holds_call_def)

lemma attached_call:
  assumes "frame_ok s i"
    and "pcs s i = Waiting key c \<or> pcs s i = Woken key c \<or> (\<exists>out. pcs s i = Exited_follower key c out)"
  shows "call_of (pcs s c) = Some (key, c)"
  using assms by (auto simp: frame_ok_def)

lemma attached_done:
  assumes "frame_ok s i"
    and "pcs s i = Woken key c \<or> (\<exists>out. pcs s i = Exited_follower key c out)"
  shows "\<exists>cl. heap s c = Some cl \<and> wg cl = 0"
  using assms by (auto simp: frame_ok_def holds_call_def)

lemma frame_ok_Enter:
  assumes inv: "invariant s" and ex: "Do_step (Enter j k now) s = Some s'"
  shows "frame_ok s' i"
proof -
  from ex have idle: "pcs s j = Idle" by (auto split: pc.splits)
  from inv have fj: "frame_ok s j" and fi: "frame_ok s i" by (simp_all add: invariant_def)
  from fj idle have nj: "no_call s j" by (simp add: frame_ok_def)
  show ?thesis
  proof (cases "the_map s k")
    case (Some c)
    with ex idle have s': "s' = s\<lparr>Group_m := Some (the_map s), pcs := (pcs s)(j := Waiting k c)\<rparr>"
      by (simp add: Let_def)
    from inv Some have lc: "leading (pcs s c) = Some (k, c)" by (rule map_entry_leading)
    then have cc: "call_of (pcs s c) = Some (k, c)" by (cases "pcs s c") auto
    with idle have cj: "c \<noteq> j" by auto
    show ?thesis
    proof (cases "i = j")
      case True
      with nj cc cj show ?thesis
        by (simp add: s' frame_ok_def no_call_def)
    next
      case False
      show ?thesis
      proof (rule frame_ok_other [OF fi])
        fix key c'
        assume "pcs s i = Waiting key c' \<or> pcs s i = Woken key c'
            \<or> (\<exists>out. pcs s i = Exited_follower key c' out)"
        from attached_call [OF fi this] idle have "c' \<noteq> j" by auto
        then show "call_of (pcs s' c') = call_of (pcs s c')" by (simp add: s')
      qed (simp_all add: s' False)
    qed
  next
    case None
    with ex idle have s': "s' = s\<lparr>Group_m := Some ((the_map s)(k \<mapsto> j)),
        heap := (heap s)(j \<mapsto> \<lparr>wg = 1, created = now, val = None, err = Some leader_panicked\<rparr>),
        pcs := (pcs s)(j := Leader k j)\<rparr>"
      by (simp add: Let_def)
    show ?thesis
    proof (cases "i = j")
      case True
      with nj None show ?thesis
        by (simp add: s' frame_ok_def no_call_def owns_def holds_call_def)
    next
      case False
      show ?thesis
      proof (rule frame_ok_other [OF fi])
        fix key c'
        assume "pcs s i = Waiting key c' \<or> pcs s i = Woken key c'
            \<or> (\<exists>out. pcs s i = Exited_follower key c' out)"
        from attached_call [OF fi this] idle have "c' \<noteq> j" by auto
        then show "call_of (pcs s' c') = call_of (pcs s c')" by (simp add: s')
      next
        fix key c'
        assume "pcs s i = Woken key c' \<or> (\<exists>out. pcs s i = Exited_follower key c' out)"
        from attached_done [OF fi this] nj have "c' \<noteq> j" by (auto simp: no_call_def)
        then show "heap s' c' = heap s c'" by (simp add: s')
      next
        fix k'
        show "(the_map s' k' = Some i) = (the_map s k' = Some i)"
          using False None by (auto simp: s')
      qed (simp_all add: s' False)
    qed
  qed
qed

lemma the_map_delete [simp]:
  "the_map (s\<lparr>Group_m := (case Group_m s of None \<Rightarrow> None | Some mp \<Rightarrow> Some (mp(key := None)))\<rparr>)
     = (the_map s)(key := None)"
  by (auto simp: the_map_def split: option.splits)

lemma frame_ok_Call_fn:
  assumes inv: "invariant s" and ex: "Do_step (Call_fn j) s = Some s'"
  shows "frame_ok s' i"
proof -
  from ex obtain key c where pj: "pcs s j = Leader key c"
    and s': "s' = s\<lparr>pcs := (pcs s)(j := Running key c),
                    fn_calls := (fn_calls s)(j := Suc (fn_calls s j))\<rparr>"
    by (auto split: pc.splits)
  from inv have fj: "frame_ok s j" and fi: "frame_ok s i" by (simp_all add: invariant_def)
  show ?thesis
  proof (cases "i = j")
    case True
    with fj pj show ?thesis
      by (simp add: s' frame_ok_def owns_def holds_call_def)
  next
    case False
    show ?thesis
    proof (rule frame_ok_other [OF fi])
      fix key' c'
      show "call_of (pcs s' c') = call_of (pcs s c')" using pj by (simp add: s')
    qed (simp_all add: s' False)
  qed
qed

lemma frame_ok_Fn_returns:
  assumes inv: "invariant s" and ex: "Do_step (Fn_returns j v e) s = Some s'"
  shows "frame_ok s' i"
proof -
  from ex obtain key c cl where pj: "pcs s j = Running key c" and hc: "heap s c = Some cl"
    and s': "s' = s\<lparr>heap := (heap s)(c \<mapsto> cl\<lparr>val := v, err := e\<rparr>),
                    pcs := (pcs s)(j := Deferred_Done key c (Returned v e))\<rparr>"
    by (auto split: pc.splits option.splits)
  from inv have fj: "frame_ok s j" and fi: "frame_ok s i" by (simp_all add: invariant_def)
  from fj pj have cj: "c = j" by (simp add: frame_ok_def)
  from fj pj hc cj have w: "wg cl = 1" by (simp add: frame_ok_def holds_call_def)
  show ?thesis
  proof (cases "i = j")
    case True
    with fj pj hc cj show ?thesis
      by (simp add: s' frame_ok_def owns_def holds_call_def)
  next
    case False
    show ?thesis
    proof (rule frame_ok_other [OF fi])
      fix key' c'
      show "call_of (pcs s' c') = call_of (pcs s c')" using pj by (simp add: s')
    next
      fix key' c'
      assume "pcs s i = Woken key' c' \<or> (\<exists>out. pcs s i = Exited_follower key' c' out)"
      from attached_done [OF fi this] hc w cj have "c' \<noteq> c" by auto
      then show "heap s' c' = heap s c'" by (simp add: s')
    qed (simp_all add: s' False cj)
  qed
qed

lemma frame_ok_Fn_panics:
  assumes inv: "invariant s" and ex: "Do_step (Fn_panics j x) s = Some s'"
  shows "frame_ok s' i"
proof -
  from ex obtain key c where pj: "pcs s j = Running key c"
    and s': "s' = s\<lparr>pcs := (pcs s)(j := Deferred_Done key c (Panicked x))\<rparr>"
    by (auto split: pc.splits)
  from inv have fj: "frame_ok s j" and fi: "frame_ok s i" by (simp_all add: invariant_def)
  show ?thesis
  proof (cases "i = j")
    case True
    with fj pj show ?thesis
      by (simp add: s' frame_ok_def owns_def holds_call_def)
  next
    case False
    show ?thesis
    proof (rule frame_ok_other [OF fi])
      fix key' c'
      show "call_of (pcs s' c') = call_of (pcs s c')" using pj by (simp add: s')
    qed (simp_all add: s' False)
  qed
qed

lemma frame_ok_Wg_Done:
  assumes inv: "invariant s" and ex: "Do_step (Wg_Done j) s = Some s'"
  shows "frame_ok s' i"
proof -
  from ex obtain key c out cl where pj: "pcs s j = Deferred_Done key c out"
    and hc: "heap s c = Some cl"
    and s': "s' = s\<lparr>heap := (heap s)(c \<mapsto> cl\<lparr>wg := wg cl - 1\<rparr>),
                    pcs := (pcs s)(j := Deferred_Delete key c out)\<rparr>"
    by (auto split: pc.splits option.splits if_splits)
  from inv have fj: "frame_ok s j" and fi: "frame_ok s i" by (simp_all add: invariant_def)
  from fj pj have cj: "c = j" by (simp add: frame_ok_def)
  from fj pj hc cj have w: "wg cl = 1" by (simp add: frame_ok_def holds_call_def)
  show ?thesis
  proof (cases "i = j")
    case True
    with fj pj hc cj w show ?thesis
      by (simp add: s' frame_ok_def owns_def holds_call_def)
  next
    case False
    show ?thesis
    proof (rule frame_ok_other [OF fi])
      fix key' c'
      show "call_of (pcs s' c') = call_of (pcs s c')" using pj by (simp add: s')
    next
      fix key' c'
      assume "pcs s i = Woken key' c' \<or> (\<exists>out. pcs s i = Exited_follower key' c' out)"
      from attached_done [OF fi this] hc w cj have "c' \<noteq> c" by auto
      then show "heap s' c' = heap s c'" by (simp add: s')
    qed (simp_all add: s' False cj)
  qed
qed

lemma frame_ok_Delete:
  assumes inv: "invariant s" and ex: "Do_step (Delete j) s = Some s'"
  shows "frame_ok s' i"
proof -
  from ex obtain key c out where pj: "pcs s j = Deferred_Delete key c out"
    and s': "s' = s\<lparr>Group_m := (case Group_m s of None \<Rightarrow> None
                                | Some mp \<Rightarrow> Some (mp(key := None))),
                    pcs := (pcs s)(j := Exited_leader key c out)\<rparr>"
    by (auto split: pc.splits)
  from inv have fj: "frame_ok s j" and fi: "frame_ok s i" by (simp_all add: invariant_def)
  from fj pj have cj: "c = j" and ow: "owns s j key" and fc: "fn_calls s j = 1"
    and hc: "holds_call s j 0 (follower_view out)"
    by (simp_all add: frame_ok_def)
  from ow have at_key: "the_map s key = Some j"
    and only_key: "\<And>k. the_map s k = Some j \<Longrightarrow> k = key"
    by (simp_all add: owns_def)
  have tm: "the_map s' = (the_map s)(key := None)" by (simp add: s')
  show ?thesis
  proof (cases "i = j")
    case True
    have gone: "the_map s' k \<noteq> Some j" for k
    proof (cases "k = key")
      case True
      then show ?thesis by (simp add: tm)
    next
      case False
      with only_key [of k] show ?thesis by (auto simp: tm)
    qed
    have "pcs s' j = Exited_leader key c out" by (simp add: s')
    moreover have "fn_calls s' j = 1" using fc by (simp add: s')
    moreover have "holds_call s' j 0 (follower_view out)"
      using hc by (simp add: s' holds_call_def)
    ultimately show ?thesis
      using gone cj True by (simp add: frame_ok_def)
  next
    case False
    show ?thesis
    proof (rule frame_ok_other [OF fi])
      fix key' c'
      show "call_of (pcs s' c') = call_of (pcs s c')" using pj by (simp add: s')
    next
      fix k'
      show "(the_map s' k' = Some i) = (the_map s k' = Some i)"
      proof (cases "k' = key")
        case True
        with at_key False show ?thesis by (simp add: tm)
      next
        case False
        then show ?thesis by (simp add: tm)
      qed
    qed (simp_all add: s' False)
  qed
qed

lemma frame_ok_Wait_returns:
  assumes inv: "invariant s" and ex: "Do_step (Wait_returns j) s = Some s'"
  shows "frame_ok s' i"
proof -
  from ex obtain key c cl where pj: "pcs s j = Waiting key c" and hc: "heap s c = Some cl"
    and w: "wg cl = 0"
    and s': "s' = s\<lparr>pcs := (pcs s)(j := Woken key c)\<rparr>"
    by (auto split: pc.splits option.splits if_splits)
  from inv have fj: "frame_ok s j" and fi: "frame_ok s i" by (simp_all add: invariant_def)
  have nj: "c' \<noteq> j" if "call_of (pcs s c') = Some (key', c')" for c' key'
    using that pj by auto
  show ?thesis
  proof (cases "i = j")
    case True
    from fj pj have "call_of (pcs s c) = Some (key, c)" by (simp add: frame_ok_def)
    with fj pj hc w nj [OF this] True show ?thesis
      by (simp add: s' frame_ok_def no_call_def)
  next
    case False
    show ?thesis
    proof (rule frame_ok_other [OF fi])
      fix key' c'
      assume "pcs s i = Waiting key' c' \<or> pcs s i = Woken key' c'
            \<or> (\<exists>out. pcs s i = Exited_follower key' c' out)"
      from nj [OF attached_call [OF fi this]]
      show "call_of (pcs s' c') = call_of (pcs s c')" by (simp add: s')
    qed (simp_all add: s' False)
  qed
qed

lemma frame_ok_Follower_returns:
  assumes inv: "invariant s" and ex: "Do_step (Follower_returns j) s = Some s'"
  shows "frame_ok s' i"
proof -
  from ex obtain key c cl where pj: "pcs s j = Woken key c" and hc: "heap s c = Some cl"
    and s': "s' = s\<lparr>pcs := (pcs s)(j := Exited_follower key c (Returned (val cl) (err cl)))\<rparr>"
    by (auto split: pc.splits option.splits)
  from inv have fj: "frame_ok s j" and fi: "frame_ok s i" by (simp_all add: invariant_def)
  have nj: "c' \<noteq> j" if "call_of (pcs s c') = Some (key', c')" for c' key'
    using that pj by auto
  show ?thesis
  proof (cases "i = j")
    case True
    from fj pj have "call_of (pcs s c) = Some (key, c)" by (simp add: frame_ok_def)
    with fj pj hc nj [OF this] True show ?thesis
      by (simp add: s' frame_ok_def no_call_def holds_call_def)
  next
    case False
    show ?thesis
    proof (rule frame_ok_other [OF fi])
      fix key' c'
      assume "pcs s i = Waiting key' c' \<or> pcs s i = Woken key' c'
            \<or> (\<exists>out. pcs s i = Exited_follower key' c' out)"
      from nj [OF attached_call [OF fi this]]
      show "call_of (pcs s' c') = call_of (pcs s c')" by (simp add: s')
    qed (simp_all add: s' False)
  qed
qed

lemma invariant_Do_step:
  assumes "invariant s" and "Do_step a s = Some s'"
  shows "invariant s'"
  unfolding invariant_def
proof
  fix i
  from assms show "frame_ok s' i"
    by (cases a)
      (simp_all only: frame_ok_Enter frame_ok_Call_fn frame_ok_Fn_returns frame_ok_Fn_panics
        frame_ok_Wg_Done frame_ok_Delete frame_ok_Wait_returns frame_ok_Follower_returns)
qed

lemma invariant_Do_steps_from:
  "invariant s \<Longrightarrow> Do_steps as s = Some s' \<Longrightarrow> invariant s'"
proof (induction as arbitrary: s)
  case Nil
  then show ?case by simp
next
  case (Cons a as)
  then show ?case
    by (auto split: option.splits dest: invariant_Do_step)
qed

lemma invariant_Do_steps: "Do_steps as initial_state = Some s \<Longrightarrow> invariant s"
  using invariant_Do_steps_from [OF invariant_initial] .

lemma oldest_loop_fold:
  assumes "acc \<noteq> 0" and "\<forall>e\<in>set es. created e \<noteq> 0"
  shows "oldest_loop acc es = fold min (map created es) acc"
  using assms
proof (induction es arbitrary: acc)
  case Nil
  then show ?case by simp
next
  case (Cons e es)
  let ?acc' = "if acc = 0 \<or> created e < acc then created e else acc"
  from Cons.prems have nz: "?acc' \<noteq> 0" by auto
  from Cons.prems have m: "?acc' = min (created e) acc" by (auto simp: min_def)
  from Cons.IH [OF nz] Cons.prems(2) have "oldest_loop ?acc' es = fold min (map created es) ?acc'"
    by simp
  then show ?case by (simp only: oldest_loop.simps m list.map fold_simps)
qed

lemma oldest_loop_Min:
  assumes "\<forall>e\<in>set es. created e \<noteq> 0"
  shows "oldest_loop 0 es = (if es = [] then 0 else Min (created ` set es))"
proof (cases es)
  case Nil
  then show ?thesis by simp
next
  case (Cons e es')
  with assms have "created e \<noteq> 0" and "\<forall>x\<in>set es'. created x \<noteq> 0" by simp_all
  then have "oldest_loop (created e) es' = fold min (map created es') (created e)"
    by (rule oldest_loop_fold)
  also have "\<dots> = Min (set (created e # map created es'))"
    by (simp only: Min.set_eq_fold)
  finally show ?thesis using Cons by simp
qed

lemma in_flight_allocated:
  assumes "invariant s" and "the_map s k = Some c"
  shows "\<exists>cl. heap s c = Some cl"
proof -
  from assms have l: "leading (pcs s c) = Some (k, c)" by (rule map_entry_leading)
  from assms(1) have "frame_ok s c" by (simp add: invariant_def)
  with l show ?thesis
    by (cases "pcs s c") (auto simp: frame_ok_def holds_call_def)
qed

lemma set_map_filter_Some:
  "set (List.map_filter f xs) = {y. \<exists>x\<in>set xs. f x = Some y}"
proof (induction xs)
  case Nil
  then show ?case by simp
next
  case (Cons x xs)
  then show ?case by (cases "f x") auto
qed

lemma set_in_flight:
  assumes "set order = dom (the_map s)"
  shows "set (List.map_filter (in_flight s) order) = ran (in_flight s)"
proof -
  have "in_flight s k = Some cl \<Longrightarrow> k \<in> dom (the_map s)" for k cl
    by (auto simp: in_flight_def split: option.splits)
  with assms show ?thesis
    unfolding set_map_filter_Some ran_def by blast
qed

lemma in_flight_Nil:
  assumes "invariant s" and "set order = dom (the_map s)"
  shows "List.map_filter (in_flight s) order = [] \<longleftrightarrow> dom (the_map s) = {}"
proof
  assume e: "List.map_filter (in_flight s) order = []"
  show "dom (the_map s) = {}"
  proof (rule ccontr)
    assume "dom (the_map s) \<noteq> {}"
    then obtain k where "k \<in> dom (the_map s)" by blast
    then obtain c where kc: "the_map s k = Some c" by blast
    with in_flight_allocated [OF assms(1)] obtain cl where "heap s c = Some cl" by blast
    with kc have "in_flight s k = Some cl" by (simp add: in_flight_def)
    moreover from kc assms(2) have "k \<in> set order" by auto
    ultimately have "cl \<in> set (List.map_filter (in_flight s) order)"
      unfolding set_map_filter_Some by blast
    with e show False by simp
  qed
next
  assume "dom (the_map s) = {}"
  with assms(2) have "order = []" by simp
  then show "List.map_filter (in_flight s) order = []"
    by simp
qed

lemma leading_in_map:
  assumes "invariant s" and "leading (pcs s i) = Some (key, c)"
  shows "c = i \<and> the_map s key = Some i"
proof -
  from assms(1) have "frame_ok s i" by (simp add: invariant_def)
  with assms(2) show ?thesis
    by (cases "pcs s i") (auto simp: frame_ok_def owns_def)
qed

lemma follower_result:
  assumes inv: "invariant s" and pi: "pcs s i = Exited_follower key c out"
  shows "fn_calls s i = 0 \<and> fn_calls s c = 1
       \<and> (\<exists>lo. (pcs s c = Deferred_Delete key c lo \<or> pcs s c = Exited_leader key c lo)
                \<and> out = follower_view lo)"
proof -
  from inv have fi: "frame_ok s i" and fc: "frame_ok s c" by (simp_all add: invariant_def)
  from fi pi have n: "fn_calls s i = 0" and co: "call_of (pcs s c) = Some (key, c)"
    and h: "holds_call s c 0 out"
    by (simp_all add: frame_ok_def no_call_def)
  from co fc h show ?thesis
    using n by (cases "pcs s c") (auto simp: frame_ok_def holds_call_def)
qed

lemma steps_flight_running:
  "Do_steps [Enter 0 ''k'' 100, Enter 1 ''k'' 101, Call_fn 0] initial_state = Some flight_running_state"
  by (simp add: initial_state_def flight_running_state_def the_map_def fun_upd_twist)

lemma steps_flight_signalled:
  "Do_steps [Enter 0 ''k'' 100, Enter 1 ''k'' 101, Call_fn 0, Fn_returns 0 (Some ''payload'') None,
        Wg_Done 0] initial_state = Some flight_signalled_state"
  by (simp add: initial_state_def flight_signalled_state_def the_map_def fun_upd_twist)

lemma steps_flight_over:
  "Do_steps [Enter 0 ''k'' 100, Enter 1 ''k'' 101, Call_fn 0, Fn_returns 0 (Some ''payload'') None,
        Wg_Done 0, Wait_returns 1, Follower_returns 1, Delete 0] initial_state
     = Some flight_over_state"
  by (simp add: initial_state_def flight_over_state_def the_map_def fun_upd_twist)

lemma steps_flight_panicked:
  "Do_steps [Enter 0 ''k'' 100, Enter 1 ''k'' 101, Call_fn 0, Fn_panics 0 ''boom'',
        Wg_Done 0, Delete 0, Wait_returns 1, Follower_returns 1] initial_state
     = Some flight_panicked_state"
  by (simp add: initial_state_def flight_panicked_state_def the_map_def fun_upd_twist)

lemma leader_exited:
  assumes inv: "invariant s" and pi: "pcs s i = Exited_leader key c out"
  shows "c = i \<and> (\<exists>cl. heap s c = Some cl \<and> wg cl = 0) \<and> (\<forall>k. the_map s k \<noteq> Some c)"
proof -
  from inv have "frame_ok s i" by (simp add: invariant_def)
  with pi show ?thesis by (auto simp: frame_ok_def holds_call_def)
qed

lemma running_call:
  assumes inv: "invariant s" and pi: "pcs s i = Leader key c \<or> pcs s i = Running key c"
  shows "c = i \<and> the_map s key = Some i
       \<and> (\<exists>cl. heap s c = Some cl \<and> wg cl = 1 \<and> val cl = None \<and> err cl = Some leader_panicked)"
proof -
  from inv have "frame_ok s i" by (simp add: invariant_def)
  with pi show ?thesis by (auto simp: frame_ok_def holds_call_def owns_def)
qed

lemma loader_ends:
  assumes inv: "invariant s" and pi: "pcs s i = Running key c"
  shows "\<exists>s'. Do_steps [Fn_panics i x, Wg_Done i, Delete i] s = Some s'
            \<and> pcs s' i = Exited_leader key c (Panicked x) \<and> the_map s' key = None
            \<and> (\<exists>cl. heap s' c = Some cl \<and> wg cl = 0 \<and> val cl = None
                     \<and> err cl = Some leader_panicked)"
    and "\<exists>s'. Do_steps [Fn_returns i v e, Wg_Done i, Delete i] s = Some s'
            \<and> pcs s' i = Exited_leader key c (Returned v e) \<and> the_map s' key = None
            \<and> (\<exists>cl. heap s' c = Some cl \<and> wg cl = 0 \<and> val cl = v \<and> err cl = e)"
proof -
  from running_call [OF inv, of i key c] pi obtain cl where ci: "c = i"
    and h: "heap s i = Some cl" and w: "wg cl = 1" and v: "val cl = None"
    and e: "err cl = Some leader_panicked"
    by auto
  show "\<exists>s'. Do_steps [Fn_panics i x, Wg_Done i, Delete i] s = Some s'
            \<and> pcs s' i = Exited_leader key c (Panicked x) \<and> the_map s' key = None
            \<and> (\<exists>cl. heap s' c = Some cl \<and> wg cl = 0 \<and> val cl = None
                     \<and> err cl = Some leader_panicked)"
    using pi ci h w v e by (simp add: the_map_def split: option.splits)
  show "\<exists>s'. Do_steps [Fn_returns i v e, Wg_Done i, Delete i] s = Some s'
            \<and> pcs s' i = Exited_leader key c (Returned v e) \<and> the_map s' key = None
            \<and> (\<exists>cl. heap s' c = Some cl \<and> wg cl = 0 \<and> val cl = v \<and> err cl = e)"
    using pi ci h w by (simp add: the_map_def split: option.splits)
qed

lemma created_nonzero_Do_step:
  assumes "created_nonzero s" and "clock_reading_ok a" and "Do_step a s = Some s'"
  shows "created_nonzero s'"
proof (cases a)
  case (Enter i key now)
  with assms show ?thesis
    by (auto simp: created_nonzero_def Let_def split: pc.splits option.splits if_splits)
next
  case (Call_fn i)
  with assms show ?thesis
    by (auto simp: created_nonzero_def split: pc.splits)
next
  case (Fn_returns i v e)
  with assms show ?thesis
    by (auto simp: created_nonzero_def split: pc.splits option.splits if_splits)
next
  case (Fn_panics i x)
  with assms show ?thesis
    by (auto simp: created_nonzero_def split: pc.splits)
next
  case (Wg_Done i)
  with assms show ?thesis
    by (auto simp: created_nonzero_def split: pc.splits option.splits if_splits)
next
  case (Delete i)
  with assms show ?thesis
    by (auto simp: created_nonzero_def split: pc.splits)
next
  case (Wait_returns i)
  with assms show ?thesis
    by (auto simp: created_nonzero_def split: pc.splits option.splits if_splits)
next
  case (Follower_returns i)
  with assms show ?thesis
    by (auto simp: created_nonzero_def split: pc.splits option.splits)
qed

lemma created_nonzero_Do_steps_from:
  "created_nonzero s \<Longrightarrow> real_clock as \<Longrightarrow> Do_steps as s = Some s' \<Longrightarrow> created_nonzero s'"
proof (induction as arbitrary: s)
  case Nil
  then show ?case by simp
next
  case (Cons a as)
  from Cons.prems(3) obtain s1 where s1: "Do_step a s = Some s1" and r: "Do_steps as s1 = Some s'"
    by (auto split: option.splits)
  from Cons.prems(2) have ok: "clock_reading_ok a" and rc: "real_clock as"
    by (simp_all add: real_clock_def)
  from Cons.prems(1) ok s1 have "created_nonzero s1" by (rule created_nonzero_Do_step)
  from Cons.IH [OF this rc r] show ?case .
qed

lemma created_nonzero_Do_steps:
  assumes "Do_steps as initial_state = Some s" and "real_clock as"
  shows "created_nonzero s"
proof -
  have "created_nonzero (initial_state :: 'a state)"
    by (simp add: created_nonzero_def initial_state_def)
  from created_nonzero_Do_steps_from [OF this assms(2) assms(1)] show ?thesis .
qed

section \<open>Duplicate call suppression: the claims\<close>

text \<open>
  Claim C8. In every state reached by steps of \<^verbatim>\<open>Do\<close>, the clock being a real one,
  \<^verbatim>\<open>LongestRunningStartTime\<close> returns the least creation time among the calls in flight, in
  whatever order (\<open>order\<close>) the entries of the map are visited, and the zero instant when no
  call is in flight; in that state \<^verbatim>\<open>Count\<close> is 0.
\<close>

theorem LongestRunningStartTime_minimum:
  assumes "Do_steps as initial_state = Some s" and "real_clock as"
    and "distinct order" and "set order = dom (the_map s)"
  shows "LongestRunningStartTime s order =
           (if dom (the_map s) = {} then 0 else Min (created ` ran (in_flight s)))
       \<and> (dom (the_map s) = {} \<longrightarrow> Count s = 0)"
proof -
  from assms(1) have inv: "invariant s" by (rule invariant_Do_steps)
  from assms(1,2) have nz: "created_nonzero s" by (rule created_nonzero_Do_steps)
  let ?es = "List.map_filter (in_flight s) order"
  have s: "set ?es = ran (in_flight s)" using assms(4) by (rule set_in_flight)
  have "created e \<noteq> 0" if "e \<in> ran (in_flight s)" for e
  proof -
    from that obtain k where "in_flight s k = Some e" by (auto simp: ran_def)
    then obtain c where "heap s c = Some e"
      by (auto simp: in_flight_def split: option.splits)
    with nz show ?thesis by (simp add: created_nonzero_def)
  qed
  with s have "\<forall>e\<in>set ?es. created e \<noteq> 0" by blast
  then have "oldest_loop 0 ?es = (if ?es = [] then 0 else Min (created ` set ?es))"
    by (rule oldest_loop_Min)
  then have "LongestRunningStartTime s order =
           (if dom (the_map s) = {} then 0 else Min (created ` ran (in_flight s)))"
    by (simp add: LongestRunningStartTime_def s in_flight_Nil [OF inv assms(4)])
  then show ?thesis by (simp add: Count_def)
qed

theorem LongestRunningStartTime_minimum_witness:
  "Do_steps [Enter 0 ''a'' 7, Enter 1 ''b'' 5] initial_state = Some two_leaders_state
   \<and> real_clock [Enter 0 ''a'' 7, Enter 1 ''b'' 5 :: unit action]
   \<and> distinct [''a'', ''b'']
   \<and> set [''a'', ''b''] = dom (the_map two_leaders_state)
   \<and> LongestRunningStartTime two_leaders_state [''a'', ''b'']
       = Min (created ` ran (in_flight two_leaders_state))
   \<and> LongestRunningStartTime two_leaders_state [''a'', ''b''] = 5
   \<and> Do_steps [] initial_state = Some (initial_state :: unit state)
   \<and> real_clock ([] :: unit action list)
   \<and> distinct ([] :: string list)
   \<and> set [] = dom (the_map (initial_state :: unit state))
   \<and> LongestRunningStartTime (initial_state :: unit state) [] = 0
   \<and> Count (initial_state :: unit state) = 0"
proof -
  have r: "Do_steps [Enter 0 ''a'' 7, Enter 1 ''b'' 5] initial_state = Some two_leaders_state"
    by (simp add: initial_state_def two_leaders_state_def the_map_def fun_upd_twist)
  have d: "distinct [''a'', ''b'']" by simp
  have o: "set [''a'', ''b''] = dom (the_map two_leaders_state)"
    by (auto simp: two_leaders_state_def the_map_def)
  have z: "real_clock [Enter 0 ''a'' 7, Enter 1 ''b'' 5 :: unit action]"
    by (simp add: real_clock_def)
  have n: "dom (the_map two_leaders_state) \<noteq> {}"
  proof -
    have "''a'' \<in> dom (the_map two_leaders_state)" unfolding o [symmetric] by simp
    then show ?thesis by blast
  qed
  have v: "LongestRunningStartTime two_leaders_state [''a'', ''b''] = 5"
    by (simp add: two_leaders_state_def the_map_def in_flight_def LongestRunningStartTime_def)
  have r0: "Do_steps [] initial_state = Some (initial_state :: unit state)" by simp
  have o0: "set [] = dom (the_map (initial_state :: unit state))"
    by (simp add: initial_state_def the_map_def)
  have z0: "real_clock ([] :: unit action list)"
    by (simp add: real_clock_def)
  have e0: "dom (the_map (initial_state :: unit state)) = {}"
    using o0 by simp
  from LongestRunningStartTime_minimum [OF r z d o] n
  have t: "LongestRunningStartTime two_leaders_state [''a'', ''b'']
       = Min (created ` ran (in_flight two_leaders_state))"
    by (simp only: if_False simp_thms)
  have d0: "distinct ([] :: string list)" by simp
  from LongestRunningStartTime_minimum [OF r0 z0 d0 o0] e0
  have t0: "LongestRunningStartTime (initial_state :: unit state) [] = 0
       \<and> Count (initial_state :: unit state) = 0"
    by (simp only: if_True simp_thms)
  from r z d o t v r0 z0 o0 t0 show ?thesis by (intro conjI) (simp_all only: distinct.simps simp_thms)
qed

text \<open>
  Claim C1. In every state reached by steps of \<^verbatim>\<open>Do\<close>: (1) two invocations that are both
  between inserting and removing a call for the same key are the same invocation, and
  that call is the key's entry in the map, so there is at most one call per key at any
  time; (2) every entry of the map is the call of the invocation leading that key; (3) an
  invocation of \<^verbatim>\<open>Do\<close> that finds an entry for its key only moves to waiting for that
  call: no call is made, no loader is run; (4) the only step a waiting invocation can take
  is the return of \<^verbatim>\<open>Wait\<close>, which needs the call's counter to be 0, that is the
  completion signal; (5) an invocation that has returned as a follower never ran its own
  loader, the loader of the call it waited for ran exactly once, and what it returned is
  what the followers of that execution are to see: the value and error the loader
  returned.
\<close>

theorem Do_duplicate_suppression:
  assumes "Do_steps as initial_state = Some s"
  shows "(leading (pcs s i) = Some (key, c) \<and> leading (pcs s j) = Some (key, c') \<longrightarrow>
            i = j \<and> c = c' \<and> the_map s key = Some c)
       \<and> (the_map s key = Some c \<longrightarrow> leading (pcs s c) = Some (key, c))
       \<and> (the_map s key = Some c \<and> pcs s i = Idle \<longrightarrow>
            Do_step (Enter i key now) s =
              Some (s\<lparr>Group_m := Some (the_map s), pcs := (pcs s)(i := Waiting key c)\<rparr>))
       \<and> (pcs s i = Waiting key c \<and> actor a = i \<and> Do_step a s = Some s' \<longrightarrow>
            a = Wait_returns i \<and> (\<exists>cl. heap s c = Some cl \<and> wg cl = 0)
            \<and> s' = s\<lparr>pcs := (pcs s)(i := Woken key c)\<rparr>)
       \<and> (pcs s i = Exited_follower key c out \<longrightarrow>
            fn_calls s i = 0 \<and> fn_calls s c = 1
            \<and> (\<exists>lo. (pcs s c = Deferred_Delete key c lo \<or> pcs s c = Exited_leader key c lo)
                     \<and> out = follower_view lo))"
proof (intro conjI impI)
  from assms have inv: "invariant s" by (rule invariant_Do_steps)
  {
    assume a: "leading (pcs s i) = Some (key, c) \<and> leading (pcs s j) = Some (key, c')"
    from a leading_in_map [OF inv, of i key c] leading_in_map [OF inv, of j key c']
    show "i = j" "c = c'" "the_map s key = Some c" by auto
  }
  {
    assume "the_map s key = Some c"
    with inv show "leading (pcs s c) = Some (key, c)" by (rule map_entry_leading)
  }
  {
    assume "the_map s key = Some c \<and> pcs s i = Idle"
    then show "Do_step (Enter i key now) s =
              Some (s\<lparr>Group_m := Some (the_map s), pcs := (pcs s)(i := Waiting key c)\<rparr>)"
      by (simp add: Let_def)
  }
  {
    assume a: "pcs s i = Waiting key c \<and> actor a = i \<and> Do_step a s = Some s'"
    then show "a = Wait_returns i" by (cases a) auto
    with a show "\<exists>cl. heap s c = Some cl \<and> wg cl = 0"
      and "s' = s\<lparr>pcs := (pcs s)(i := Woken key c)\<rparr>"
      by (auto split: option.splits if_splits)
  }
  {
    assume "pcs s i = Exited_follower key c out"
    with inv follower_result [OF inv, of i key c out]
    show "fn_calls s i = 0" "fn_calls s c = 1"
      "\<exists>lo. (pcs s c = Deferred_Delete key c lo \<or> pcs s c = Exited_leader key c lo)
                     \<and> out = follower_view lo"
      by simp_all
  }
qed
theorem Do_duplicate_suppression_witness:
  "Do_steps [Enter 0 ''k'' 100, Enter 1 ''k'' 101, Call_fn 0, Fn_returns 0 (Some ''payload'') None,
        Wg_Done 0] initial_state = Some flight_signalled_state
   \<and> leading (pcs flight_signalled_state 0) = Some (''k'', 0)
   \<and> the_map flight_signalled_state ''k'' = Some 0
   \<and> pcs flight_signalled_state 2 = Idle
   \<and> Do_step (Enter 2 ''k'' 102) flight_signalled_state =
       Some (flight_signalled_state
               \<lparr>Group_m := Some (the_map flight_signalled_state),
                pcs := (pcs flight_signalled_state)(2 := Waiting ''k'' 0)\<rparr>)
   \<and> pcs flight_signalled_state 1 = Waiting ''k'' 0
   \<and> actor (Wait_returns 1 :: string action) = 1
   \<and> Do_step (Wait_returns 1) flight_signalled_state =
       Some (flight_signalled_state\<lparr>pcs := (pcs flight_signalled_state)(1 := Woken ''k'' 0)\<rparr>)
   \<and> Do_steps [Enter 0 ''k'' 100, Enter 1 ''k'' 101, Call_fn 0, Fn_returns 0 (Some ''payload'') None,
          Wg_Done 0, Wait_returns 1, Follower_returns 1, Delete 0] initial_state
       = Some flight_over_state
   \<and> pcs flight_over_state 1 = Exited_follower ''k'' 0 (Returned (Some ''payload'') None)
   \<and> pcs flight_over_state 0 = Exited_leader ''k'' 0 (Returned (Some ''payload'') None)
   \<and> fn_calls flight_over_state 1 = 0
   \<and> fn_calls flight_over_state 0 = 1"
proof -
  let ?A = flight_signalled_state
  let ?B = flight_over_state
  have l: "leading (pcs ?A 0) = Some (''k'', 0)"
    by (simp add: flight_signalled_state_def)
  have m: "the_map ?A ''k'' = Some 0"
    by (simp add: flight_signalled_state_def the_map_def)
  have i2: "pcs ?A 2 = Idle" by (simp add: flight_signalled_state_def)
  have w1: "pcs ?A 1 = Waiting ''k'' 0" by (simp add: flight_signalled_state_def)
  have ac: "actor (Wait_returns 1 :: string action) = 1" by simp
  have ex: "Do_step (Wait_returns 1) ?A = Some (?A\<lparr>pcs := (pcs ?A)(1 := Woken ''k'' 0)\<rparr>)"
    by (simp add: flight_signalled_state_def)
  have f1: "pcs ?B 1 = Exited_follower ''k'' 0 (Returned (Some ''payload'') None)"
    by (simp add: flight_over_state_def)
  have f0: "pcs ?B 0 = Exited_leader ''k'' 0 (Returned (Some ''payload'') None)"
    by (simp add: flight_over_state_def)
  note tA = Do_duplicate_suppression [OF steps_flight_signalled]
  note tB = Do_duplicate_suppression [OF steps_flight_over]
  from tA [where i = 0 and j = 0 and key = "''k''" and c = 0 and c' = 0] l
  have m': "the_map ?A ''k'' = Some 0" by blast
  from tA [where i = 2 and key = "''k''" and c = 0 and now = 102] m i2
  have e2: "Do_step (Enter 2 ''k'' 102) ?A =
       Some (?A\<lparr>Group_m := Some (the_map ?A), pcs := (pcs ?A)(2 := Waiting ''k'' 0)\<rparr>)"
    by blast
  from tA [where i = 1 and key = "''k''" and c = 0 and a = "Wait_returns 1"
      and s' = "?A\<lparr>pcs := (pcs ?A)(1 := Woken ''k'' 0)\<rparr>"] w1 ac ex
  have sg: "\<exists>cl. heap ?A 0 = Some cl \<and> wg cl = 0" by blast
  from tB [where i = 1 and key = "''k''" and c = 0 and out = "Returned (Some ''payload'') None"] f1
  have c: "fn_calls ?B 1 = 0 \<and> fn_calls ?B 0 = 1" by blast
  from steps_flight_signalled l m i2 e2 w1 ac ex steps_flight_over f1 f0 c
  show ?thesis by (intro conjI) (simp_all only: simp_thms)
qed

text \<open>
  Claim C2. In every state reached by steps of \<^verbatim>\<open>Do\<close>: (1) once a leader's \<^verbatim>\<open>Do\<close> is over,
  whether it returned or panicked, the counter of its call is 0 (the completion signal has
  fired) and no entry of the map holds its call; (2) while the loader runs, both ways it
  can end lead through \<^verbatim>\<open>Done\<close> and the removal of the key's entry: when it panics with
  \<open>x\<close>, the three steps can be taken, \<^verbatim>\<open>Do\<close> ends with the same panic \<open>x\<close>, the key has no
  entry and the call still holds the nil value and the error it was given at its creation;
  when it returns, likewise with the returned results; (3) before and while the loader
  runs, the call's error is that "leader panicked" error; (4) a follower of a call whose
  loader panicked returns the nil value and that error.
\<close>

theorem Do_cleanup_on_every_exit:
  assumes "Do_steps as initial_state = Some s"
  shows "(pcs s i = Exited_leader key c out \<longrightarrow>
            (\<exists>cl. heap s c = Some cl \<and> wg cl = 0) \<and> (\<forall>k. the_map s k \<noteq> Some c))
       \<and> (pcs s i = Running key c \<longrightarrow>
            (\<exists>s'. Do_steps [Fn_panics i x, Wg_Done i, Delete i] s = Some s'
                  \<and> pcs s' i = Exited_leader key c (Panicked x) \<and> the_map s' key = None
                  \<and> (\<exists>cl. heap s' c = Some cl \<and> wg cl = 0 \<and> val cl = None
                           \<and> err cl = Some leader_panicked))
            \<and> (\<exists>s'. Do_steps [Fn_returns i v e, Wg_Done i, Delete i] s = Some s'
                  \<and> pcs s' i = Exited_leader key c (Returned v e) \<and> the_map s' key = None
                  \<and> (\<exists>cl. heap s' c = Some cl \<and> wg cl = 0 \<and> val cl = v \<and> err cl = e)))
       \<and> (pcs s i = Leader key c \<or> pcs s i = Running key c \<longrightarrow>
            (\<exists>cl. heap s c = Some cl \<and> wg cl = 1 \<and> val cl = None
                  \<and> err cl = Some leader_panicked))
       \<and> (pcs s j = Exited_follower key c out'
            \<and> (pcs s c = Deferred_Delete key c (Panicked x)
                 \<or> pcs s c = Exited_leader key c (Panicked x)) \<longrightarrow>
            out' = Returned None (Some leader_panicked))"
proof (intro conjI impI)
  from assms have inv: "invariant s" by (rule invariant_Do_steps)
  {
    assume "pcs s i = Exited_leader key c out"
    with leader_exited [OF inv, of i key c out]
    show "\<exists>cl. heap s c = Some cl \<and> wg cl = 0" and "\<forall>k. the_map s k \<noteq> Some c"
      by blast+
  }
  {
    assume r: "pcs s i = Running key c"
    from loader_ends(1) [OF inv r]
    show "\<exists>s'. Do_steps [Fn_panics i x, Wg_Done i, Delete i] s = Some s'
                  \<and> pcs s' i = Exited_leader key c (Panicked x) \<and> the_map s' key = None
                  \<and> (\<exists>cl. heap s' c = Some cl \<and> wg cl = 0 \<and> val cl = None
                           \<and> err cl = Some leader_panicked)" .
    from loader_ends(2) [OF inv r]
    show "\<exists>s'. Do_steps [Fn_returns i v e, Wg_Done i, Delete i] s = Some s'
                  \<and> pcs s' i = Exited_leader key c (Returned v e) \<and> the_map s' key = None
                  \<and> (\<exists>cl. heap s' c = Some cl \<and> wg cl = 0 \<and> val cl = v \<and> err cl = e)" .
  }
  {
    assume "pcs s i = Leader key c \<or> pcs s i = Running key c"
    from running_call [OF inv this]
    show "\<exists>cl. heap s c = Some cl \<and> wg cl = 1 \<and> val cl = None \<and> err cl = Some leader_panicked"
      by blast
  }
  {
    assume a: "pcs s j = Exited_follower key c out'
            \<and> (pcs s c = Deferred_Delete key c (Panicked x)
                 \<or> pcs s c = Exited_leader key c (Panicked x))"
    with follower_result [OF inv, of j key c out']
    show "out' = Returned None (Some leader_panicked)" by auto
  }
qed

theorem Do_cleanup_on_every_exit_witness:
  "Do_steps [Enter 0 ''k'' 100, Enter 1 ''k'' 101, Call_fn 0] initial_state = Some flight_running_state
   \<and> pcs flight_running_state 0 = Running ''k'' 0
   \<and> Do_steps [Fn_panics 0 ''boom'', Wg_Done 0, Delete 0] flight_running_state \<noteq> None
   \<and> heap flight_running_state 0
       = Some \<lparr>wg = 1, created = 100, val = None, err = Some leader_panicked\<rparr>
   \<and> Do_steps [Enter 0 ''k'' 100, Enter 1 ''k'' 101, Call_fn 0, Fn_panics 0 ''boom'',
          Wg_Done 0, Delete 0, Wait_returns 1, Follower_returns 1] initial_state
       = Some flight_panicked_state
   \<and> pcs flight_panicked_state 0 = Exited_leader ''k'' 0 (Panicked ''boom'')
   \<and> pcs flight_panicked_state 1 = Exited_follower ''k'' 0 (Returned None (Some leader_panicked))
   \<and> the_map flight_panicked_state ''k'' \<noteq> Some 0
   \<and> heap flight_panicked_state 0
       = Some \<lparr>wg = 0, created = 100, val = None, err = Some leader_panicked\<rparr>"
proof -
  let ?C = flight_running_state
  let ?D = flight_panicked_state
  have r: "pcs ?C 0 = Running ''k'' 0" by (simp add: flight_running_state_def)
  have hC: "heap ?C 0 = Some \<lparr>wg = 1, created = 100, val = None, err = Some leader_panicked\<rparr>"
    by (simp add: flight_running_state_def)
  have l: "pcs ?D 0 = Exited_leader ''k'' 0 (Panicked ''boom'')"
    by (simp add: flight_panicked_state_def)
  have f: "pcs ?D 1 = Exited_follower ''k'' 0 (Returned None (Some leader_panicked))"
    by (simp add: flight_panicked_state_def)
  have hD: "heap ?D 0 = Some \<lparr>wg = 0, created = 100, val = None, err = Some leader_panicked\<rparr>"
    by (simp add: flight_panicked_state_def)
  note tC = Do_cleanup_on_every_exit [OF steps_flight_running]
  note tD = Do_cleanup_on_every_exit [OF steps_flight_panicked]
  from tC [where i = 0 and key = "''k''" and c = 0 and x = "''boom''"] r
  have p: "Do_steps [Fn_panics 0 ''boom'', Wg_Done 0, Delete 0] ?C \<noteq> None" by force
  from tD [where i = 0 and key = "''k''" and c = 0 and out = "Panicked ''boom''"] l
  have g: "the_map ?D ''k'' \<noteq> Some 0" by blast
  from tD [where j = 1 and key = "''k''" and c = 0 and x = "''boom''"
      and out' = "Returned None (Some leader_panicked)"] f l
  have "Returned None (Some leader_panicked) = (Returned None (Some leader_panicked) :: string outcome)"
    by blast
  from steps_flight_running r p hC steps_flight_panicked l f g hD
  show ?thesis by (intro conjI) (simp_all only: simp_thms)
qed

end
